(* ===== verification/Prelude.thy ===== *)
theory Prelude
  imports Main "HOL-Library.Word" "HOL-Library.Signed_Division" "HOL-Library.Monad_Syntax"
    "HOL-Library.Code_Target_Numeral"
begin

text \<open>
  What every component shares: the machine integers of the firmware, the
  integer operations of the Rust core library that the code calls, the collections
  of facts the component theories extend, and generic lemmas on words and lists.

  The firmware is built for \<open>xtensa-esp32s3-none-elf\<close>, so \<open>usize\<close> has 32 bits. The
  release profile of \<open>Cargo.toml\<close> sets \<open>overflow-checks = false\<close>: the operators
  \<open>+\<close>, \<open>-\<close> and \<open>*\<close> wrap around, as they do on \<open>'a word\<close>. Signed integers are words
  too, read with \<open>sint\<close> and compared with \<open><s\<close> and \<open>\<le>s\<close>; \<open>as\<close> casts are
  \<open>ucast\<close> (unsigned source) and \<open>scast\<close> (signed source).
\<close>

unbundle bit_operations_syntax

type_synonym u8 = "8 word"
type_synonym u16 = "16 word"
type_synonym u32 = "32 word"
type_synonym u64 = "64 word"
type_synonym usize = "32 word"
type_synonym i32 = "32 word"
type_synonym i64 = "64 word"

section \<open>Collections of facts\<close>

text \<open>
  \<open>unat_arith_simps\<close>: how \<open>unat\<close> of an operation is computed.
  \<open>text_simps\<close>: evaluation of the text functions of the Rust library.
  \<open>wire_simps\<close>: definitions of the serialisers and of what they are compared with.
\<close>

named_theorems unat_arith_simps
named_theorems text_simps
named_theorems wire_simps

section \<open>Integer operations of the Rust core library\<close>

text \<open>\<open>a.saturating_sub(b)\<close> on an unsigned type.\<close>

definition saturating_sub :: "'a::len word \<Rightarrow> 'a word \<Rightarrow> 'a word" where
  "saturating_sub a b = (if a < b then 0 else a - b)"

text \<open>\<open>a.saturating_mul(b)\<close> on an unsigned type.\<close>

definition saturating_mul :: "'a::len word \<Rightarrow> 'a word \<Rightarrow> 'a word" where
  "saturating_mul a b =
     (if unat a * unat b < 2 ^ LENGTH('a) then a * b else - 1)"

text \<open>\<open>a / b\<close> on a signed type, \<open>b\<close> not zero: the quotient truncated towards zero.\<close>

definition signed_div :: "'a::len word \<Rightarrow> 'a word \<Rightarrow> 'a word" where
  "signed_div a b = word_of_int (sint a sdiv sint b)"

text \<open>\<open>a.abs()\<close> on a signed type; in the release profile the least value is its own.\<close>

definition signed_abs :: "'a::len word \<Rightarrow> 'a word" where
  "signed_abs a = (if a <s 0 then - a else a)"

lemma unat_saturating_sub [unat_arith_simps, simp]:
  "unat (saturating_sub a b) = unat a - unat b"
  by (auto simp: saturating_sub_def word_less_nat_alt unat_sub_if_size)

lemma saturating_sub_self [simp]: "saturating_sub a a = 0"
  by (simp add: saturating_sub_def)

lemma saturating_sub_le: "saturating_sub a b \<le> a"
  by (simp add: word_le_nat_alt)

lemma unat_saturating_mul [unat_arith_simps]:
  fixes a b :: "'a::len word"
  shows "unat (saturating_mul a b) = min (unat a * unat b) (2 ^ LENGTH('a) - 1)"
proof (cases "unat a * unat b < 2 ^ LENGTH('a)")
  case True
  then show ?thesis by (simp add: saturating_mul_def unat_word_ariths)
next
  case False
  then have "unat (saturating_mul a b) = 2 ^ LENGTH('a) - 1"
    by (simp add: saturating_mul_def unsigned_minus_1_eq_mask mask_eq_exp_minus_1)
  moreover have "2 ^ LENGTH('a) - 1 \<le> unat a * unat b"
    using False by linarith
  ultimately show ?thesis by (simp only: min_absorb2)
qed

section \<open>Words as numbers\<close>

lemma unat_add_small [unat_arith_simps]:
  fixes a b :: "'a::len word"
  assumes "unat a + unat b < 2 ^ LENGTH('a)"
  shows "unat (a + b) = unat a + unat b"
  using assms by (simp add: unat_word_ariths)

lemma unat_mult_small [unat_arith_simps]:
  fixes a b :: "'a::len word"
  assumes "unat a * unat b < 2 ^ LENGTH('a)"
  shows "unat (a * b) = unat a * unat b"
  using assms by (simp add: unat_word_ariths)

lemma unat_minus_small [unat_arith_simps]:
  fixes a b :: "'a::len word"
  assumes "unat b \<le> unat a"
  shows "unat (a - b) = unat a - unat b"
  using assms by (simp add: unat_sub word_le_nat_alt)

lemma sint_eq_unat:
  fixes a :: "'a::len word"
  assumes "unat a < 2 ^ (LENGTH('a) - 1)"
  shows "sint a = int (unat a)"
proof -
  have "sint a = signed_take_bit (LENGTH('a) - 1) (int (unat a))"
    by (simp add: sint_uint)
  also have "\<dots> = int (unat a)"
  proof (rule signed_take_bit_int_eq_self)
    show "- (2 ^ (LENGTH('a) - 1)) \<le> int (unat a)"
      by (rule order_trans [where y = 0]) simp_all
    show "int (unat a) < 2 ^ (LENGTH('a) - 1)"
      using assms by (metis of_nat_less_iff of_nat_numeral of_nat_power)
  qed
  finally show ?thesis .
qed

lemma zero_sle_unat:
  fixes a :: "'a::len word"
  assumes "unat a < 2 ^ (LENGTH('a) - 1)"
  shows "0 \<le>s a"
  using sint_eq_unat [OF assms] by (simp add: word_sle_eq)

lemma signed_div_eq_div:
  fixes a b :: "'a::len word"
  assumes "unat a < 2 ^ (LENGTH('a) - 1)" "unat b < 2 ^ (LENGTH('a) - 1)"
  shows "signed_div a b = a div b"
proof -
  have "int (unat a) sdiv int (unat b) = int (unat a) div int (unat b)"
    by (simp add: signed_divide_int_def sgn_if del: of_nat_unat int_nat_eq unat_gt_0)
  then show ?thesis
    by (simp only: signed_div_def sint_eq_unat [OF assms(1)] sint_eq_unat [OF assms(2)]
        word_div_def uint_nat)
qed

lemma scast_eq_of_nat:
  fixes a :: "'a::len word"
  assumes "unat a < 2 ^ (LENGTH('a) - 1)"
  shows "scast a = (of_nat (unat a) :: 'b::len word)"
  using sint_eq_unat [OF assms] by (simp add: scast_eq)

lemma ucast_eq_of_nat: "ucast a = (of_nat (unat a) :: 'b::len word)"
  by simp

lemma unat_of_nat_small:
  "n < 2 ^ LENGTH('a) \<Longrightarrow> unat (of_nat n :: 'a::len word) = n"
  by (simp add: unat_of_nat take_bit_nat_eq_self)

lemma word_eq_of_nat: "unat a = n \<Longrightarrow> a = of_nat n"
  by auto

lemma ucast_of_unat: "unat a = n \<Longrightarrow> ucast a = (of_nat n :: 'b::len word)"
  by auto

lemma unat_ucast_small:
  "unat a < 2 ^ LENGTH('b) \<Longrightarrow> unat (ucast a :: 'b::len word) = unat a"
  by (simp add: unsigned_ucast_eq take_bit_nat_eq_self)

lemma unat_less [simp]: "unat (a :: 'a::len word) < 2 ^ LENGTH('a)"
  by (rule unsigned_less)


lemma sint_word_of_int:
  assumes "- (2 ^ (LENGTH('a) - 1)) \<le> x" "x < 2 ^ (LENGTH('a) - 1)"
  shows "sint (word_of_int x :: 'a::len word) = x"
  using assms by (simp add: sint_sbintrunc' signed_take_bit_int_eq_self)

lemma sint_signed_abs:
  assumes "\<bar>x\<bar> < 2 ^ (LENGTH('a) - 1)"
  shows "sint (signed_abs (word_of_int x :: 'a::len word)) = \<bar>x\<bar>"
proof -
  have "sint (word_of_int x :: 'a word) = x"
    using assms by (intro sint_word_of_int) simp_all
  moreover have "sint (word_of_int (- x) :: 'a word) = - x"
    using assms by (intro sint_word_of_int) simp_all
  ultimately show ?thesis
    by (simp add: signed_abs_def word_sless_alt)
qed

lemma div_bounds: "0 < d \<Longrightarrow> n div d * d \<le> n \<and> n < n div d * d + (d :: nat)"
  by (metis add_le_same_cancel1 div_mult_mod_eq le_add1 mod_less_divisor add_strict_left_mono)

end
