(* ===== verification/Config.thy ===== *)
theory Config
  imports Prelude
begin

text \<open>
  The constants of \<open>src/config.rs\<close>. The values the build reads from the environment
  (\<open>env!\<close>, \<open>option_env!\<close>) are fields of the record \<open>build_env\<close>, an argument of
  every definition that uses one of them.
\<close>

record build_env =
  K3S_API_HOST :: string
  K3S_API_PORT_STR :: string
  K3S_TOKEN :: string
  WIFI_SSID :: string
  WIFI_PSK :: string
  env_NODE_NAME :: "string option"

definition NODE_NAME :: "build_env \<Rightarrow> string" where
  "NODE_NAME env =
     (case env_NODE_NAME env of Some s \<Rightarrow> s | None \<Rightarrow> ''esp-node-01-guenther'')"

definition LEASE_DURATION_SECS :: u32 where
  "LEASE_DURATION_SECS = 40"

definition LEASE_RENEW_PERIOD_SECS :: u64 where
  "LEASE_RENEW_PERIOD_SECS = 10"

definition STATUS_UPDATE_PERIOD_SECS :: u64 where
  "STATUS_UPDATE_PERIOD_SECS = 300"

definition MEMORY_PRESSURE_FREE_BYTES :: usize where
  "MEMORY_PRESSURE_FREE_BYTES = 20 * 1024"

definition HEAP_TOTAL_BYTES :: usize where
  "HEAP_TOTAL_BYTES = (64 + 36) * 1024"

definition VIBES_CURSED_RECONNECTS :: u32 where
  "VIBES_CURSED_RECONNECTS = 3"

definition CAFFEINATED_FRESH_SECS :: u64 where
  "CAFFEINATED_FRESH_SECS = 600"

definition HAUNTED_SLIP_SECS :: i64 where
  "HAUNTED_SLIP_SECS = 5"

named_theorems config_defs

declare LEASE_DURATION_SECS_def [config_defs] LEASE_RENEW_PERIOD_SECS_def [config_defs]
  STATUS_UPDATE_PERIOD_SECS_def [config_defs] MEMORY_PRESSURE_FREE_BYTES_def [config_defs]
  HEAP_TOTAL_BYTES_def [config_defs] VIBES_CURSED_RECONNECTS_def [config_defs]
  CAFFEINATED_FRESH_SECS_def [config_defs] HAUNTED_SLIP_SECS_def [config_defs]

end
