(* ===== verification/Heapless.thy ===== *)
theory Heapless
  imports Prelude
begin

text \<open>
  The interface of \<open>heapless::String<N>\<close>, a string of at most \<open>N\<close> bytes without heap
  allocation. The crate is not part of the repository, so \<open>push_str\<close> is a parameter of
  every definition that writes into a buffer: \<open>push n s t\<close> is the content of a buffer of
  capacity \<open>n\<close> with content \<open>s\<close> after \<open>push_str(t)\<close>, \<open>None\<close> for \<open>Err\<close>.
  The locale \<open>bounded_buffer\<close> states its documented contract. \<open>bounded_push\<close> is the
  reference behaviour of that contract, on which the locale is interpreted.

  Every caller in the firmware drops its buffer when a write fails, so the content of a
  buffer after an error is not modelled.
\<close>

type_synonym push_str = "nat \<Rightarrow> string \<Rightarrow> string \<Rightarrow> string option"

text \<open>
  \<open>write!(out, ...)\<close> passes the literal and the formatted pieces to the buffer from left
  to right and stops at the first error.
\<close>

fun write_fmt :: "push_str \<Rightarrow> nat \<Rightarrow> string \<Rightarrow> string list \<Rightarrow> string option" where
  "write_fmt push n out [] = Some out"
| "write_fmt push n out (p # ps) =
     (case push n out p of None \<Rightarrow> None | Some out' \<Rightarrow> write_fmt push n out' ps)"

definition bounded_push :: push_str where
  "bounded_push n s t = (if length s + length t \<le> n then Some (s @ t) else None)"

locale bounded_buffer =
  fixes push :: push_str
  assumes push_fits: "length s + length t \<le> n \<Longrightarrow> push n s t = Some (s @ t)"
    and push_full: "n < length s + length t \<Longrightarrow> push n s t = None"
begin

lemma push_eq: "push n s t = (if length s + length t \<le> n then Some (s @ t) else None)"
  by (simp add: push_fits push_full)

text \<open>A formatted write succeeds exactly when the whole text fits.\<close>

lemma write_fmt_eq:
  assumes "length s \<le> n"
  shows "write_fmt push n s ps =
    (if length s + length (concat ps) \<le> n then Some (s @ concat ps) else None)"
  using assms by (induction ps arbitrary: s) (auto simp: push_eq)

lemma write_fmt_fits:
  "length s + length (concat ps) \<le> n \<Longrightarrow> write_fmt push n s ps = Some (s @ concat ps)"
  by (simp add: write_fmt_eq)

lemma write_fmt_None:
  "length s \<le> n \<Longrightarrow> write_fmt push n s ps = None \<longleftrightarrow> n < length s + length (concat ps)"
  by (auto simp: write_fmt_eq)

lemma write_fmt_bound:
  "length s \<le> n \<Longrightarrow> write_fmt push n s ps = Some t \<Longrightarrow> length t \<le> n"
  by (auto simp: write_fmt_eq split: if_splits)

end

interpretation ref_buffer: bounded_buffer bounded_push
  by unfold_locales (simp_all add: bounded_push_def)

end
