(* ===== verification/ApiPath.thy ===== *)
theory ApiPath
  imports Config Heapless
begin

text \<open>
  \<open>src/k8s/path.rs\<close> and the identity of \<open>src/kubelet.rs\<close>: URL paths in buffers of a fixed
  capacity and the three paths of the node. \<open>ApiPath::clone\<close> and \<open>NodeIdentity::new\<close>
  unwrap the results of their writes; a panic is \<open>None\<close>.
\<close>

type_synonym Ipv4Addr = "u8 \<times> u8 \<times> u8 \<times> u8"
type_synonym ApiPath = string

definition ApiPath_new :: "push_str \<Rightarrow> nat \<Rightarrow> string list \<Rightarrow> ApiPath option" where
  "ApiPath_new push n args = write_fmt push n [] args"

definition as_str :: "ApiPath \<Rightarrow> string" where
  "as_str path = path"

definition ApiPath_clone :: "push_str \<Rightarrow> nat \<Rightarrow> ApiPath \<Rightarrow> ApiPath option" where
  "ApiPath_clone push n path = push n [] (as_str path)"

record NodeIdentity =
  ni_name :: string
  ni_ip :: Ipv4Addr
  ni_lease_path :: ApiPath
  ni_status_path :: ApiPath
  ni_node_path :: ApiPath

definition NodeIdentity_new :: "push_str \<Rightarrow> build_env \<Rightarrow> Ipv4Addr \<Rightarrow> NodeIdentity option" where
  "NodeIdentity_new push env ip = do {
     let name = NODE_NAME env;
     lease_path \<leftarrow> ApiPath_new push 128
       [''/apis/coordination.k8s.io/v1/namespaces/kube-node-lease/leases/'', name];
     status_path \<leftarrow> ApiPath_new push 128 [''/api/v1/nodes/'', name, ''/status''];
     node_path \<leftarrow> ApiPath_new push 128 [''/api/v1/nodes/'', name];
     Some \<lparr>ni_name = name, ni_ip = ip, ni_lease_path = lease_path,
           ni_status_path = status_path, ni_node_path = node_path\<rparr>
   }"

text \<open>The derived \<open>Clone\<close> of the identity clones its paths.\<close>

definition NodeIdentity_clone :: "push_str \<Rightarrow> NodeIdentity \<Rightarrow> NodeIdentity option" where
  "NodeIdentity_clone push i = do {
     lease_path \<leftarrow> ApiPath_clone push 128 (ni_lease_path i);
     status_path \<leftarrow> ApiPath_clone push 128 (ni_status_path i);
     node_path \<leftarrow> ApiPath_clone push 128 (ni_node_path i);
     Some \<lparr>ni_name = ni_name i, ni_ip = ni_ip i, ni_lease_path = lease_path,
           ni_status_path = status_path, ni_node_path = node_path\<rparr>
   }"

section \<open>When the paths fit\<close>

context bounded_buffer
begin

lemma ApiPath_new_eq:
  "ApiPath_new push n args = (if length (concat args) \<le> n then Some (concat args) else None)"
  by (simp add: ApiPath_new_def write_fmt_eq)

text \<open>A clone never panics: what is in a buffer fits a buffer of the same capacity.\<close>

lemma ApiPath_clone_new: "ApiPath_new push n args = Some p \<Longrightarrow> ApiPath_clone push n p = Some p"
  by (auto simp: ApiPath_new_eq ApiPath_clone_def as_str_def push_eq split: if_splits)

lemma NodeIdentity_new_eq:
  "NodeIdentity_new push env ip =
    (if length (NODE_NAME env) \<le> 65
     then Some \<lparr>ni_name = NODE_NAME env, ni_ip = ip,
       ni_lease_path = ''/apis/coordination.k8s.io/v1/namespaces/kube-node-lease/leases/'' @ NODE_NAME env,
       ni_status_path = ''/api/v1/nodes/'' @ NODE_NAME env @ ''/status'',
       ni_node_path = ''/api/v1/nodes/'' @ NODE_NAME env\<rparr>
     else None)"
  by (simp add: NodeIdentity_new_def ApiPath_new_eq Let_def)

lemma NodeIdentity_new_ip: "NodeIdentity_new push env ip = Some i \<Longrightarrow> ni_ip i = ip"
  by (auto simp: NodeIdentity_new_def Let_def split: Option.bind_splits)

lemma NodeIdentity_clone_new:
  "NodeIdentity_new push env ip = Some i \<Longrightarrow> NodeIdentity_clone push i = Some i"
  by (auto simp: NodeIdentity_new_eq NodeIdentity_clone_def ApiPath_clone_def as_str_def push_eq
      split: if_splits)

end

section \<open>Properties\<close>

text \<open>The identity of the node exists exactly for names of at most 65 bytes; for a longer one
  \<open>NodeIdentity::new\<close> panics. Its paths are those of the Kubernetes API, and cloning it never
  panics.\<close>

lemma identity_of_node:
  assumes "bounded_buffer push"
  shows "(NodeIdentity_new push env ip = None \<longleftrightarrow> 65 < length (NODE_NAME env)) \<and>
    (\<forall>i. NodeIdentity_new push env ip = Some i \<longrightarrow> NodeIdentity_clone push i = Some i \<and>
       ni_status_path i = ni_node_path i @ ''/status'')"
  using bounded_buffer.NodeIdentity_new_eq [OF assms] bounded_buffer.NodeIdentity_clone_new [OF assms]
  by auto

definition sample_env :: "string \<Rightarrow> build_env" where
  "sample_env name =
     \<lparr>K3S_API_HOST = ''192.168.1.10'', K3S_API_PORT_STR = ''6443'', K3S_TOKEN = ''token'',
      WIFI_SSID = ''void'', WIFI_PSK = ''secret'', env_NODE_NAME = Some name\<rparr>"

end
