(* ===== verification/Civil.thy ===== *)
theory Civil
  imports Prelude
begin

text \<open>
  The reference calendar: the Gregorian calendar as the rule that gives the next day.
  It is the specification that the date arithmetic of \<open>src/wallclock.rs\<close> (Howard
  Hinnant's \<open>days_from_civil\<close> and \<open>civil_from_days\<close>) is compared with. The second part
  states that arithmetic on natural numbers and proves that it enumerates the days of
  the calendar; \<open>Wallclock\<close> shows that the machine code computes it.
\<close>

section \<open>The calendar, day by day\<close>

datatype date = Date (year: nat) (month: nat) (day: nat)

definition leap :: "nat \<Rightarrow> bool" where
  "leap y \<longleftrightarrow> 4 dvd y \<and> (\<not> 100 dvd y \<or> 400 dvd y)"

definition days_in_month :: "nat \<Rightarrow> nat \<Rightarrow> nat" where
  "days_in_month y m =
     (if m = 2 then if leap y then 29 else 28
      else if m \<in> {4, 6, 9, 11} then 30 else 31)"

fun valid_date :: "date \<Rightarrow> bool" where
  "valid_date (Date y m d) \<longleftrightarrow> 1 \<le> m \<and> m \<le> 12 \<and> 1 \<le> d \<and> d \<le> days_in_month y m"

fun next_date :: "date \<Rightarrow> date" where
  "next_date (Date y m d) =
     (if d < days_in_month y m then Date y m (d + 1)
      else if m < 12 then Date y (m + 1) 1
      else Date (y + 1) 1 1)"

definition unix_epoch :: date where
  "unix_epoch = Date 1970 1 1"

definition date_of_day :: "nat \<Rightarrow> date" where
  "date_of_day n = (next_date ^^ n) unix_epoch"

text \<open>Dates are ordered as the calendar orders them.\<close>

instantiation date :: linorder
begin

definition less_date :: "date \<Rightarrow> date \<Rightarrow> bool" where
  "less_date a b \<longleftrightarrow> year a < year b \<or> year a = year b \<and>
     (month a < month b \<or> month a = month b \<and> day a < day b)"

definition less_eq_date :: "date \<Rightarrow> date \<Rightarrow> bool" where
  "less_eq_date a b \<longleftrightarrow> a < b \<or> a = (b :: date)"

instance
  by standard (auto simp: less_date_def less_eq_date_def intro: date.expand)

end

lemma valid_next_date: "valid_date dt \<Longrightarrow> valid_date (next_date dt)"
  by (cases dt) (auto simp: days_in_month_def split: if_splits)

lemma next_date_greater: "dt < next_date dt"
  by (cases dt) (auto simp: less_date_def)

lemma year_next_date: "year dt \<le> year (next_date dt)"
  by (cases dt) auto

lemma valid_date_of_day: "valid_date (date_of_day n)"
  unfolding date_of_day_def
  by (induction n) (auto simp: valid_next_date unix_epoch_def days_in_month_def)

lemma date_of_day_Suc: "date_of_day (Suc n) = next_date (date_of_day n)"
  by (simp add: date_of_day_def)

lemma year_date_of_day: "1970 \<le> year (date_of_day n)"
proof (induction n)
  case 0
  then show ?case by (simp add: date_of_day_def unix_epoch_def)
next
  case (Suc n)
  then show ?case
    using year_next_date [of "date_of_day n"] by (simp add: date_of_day_Suc)
qed

section \<open>Years that start in March\<close>

text \<open>
  The algorithm counts years from March, so that the leap day is the last day of its
  year. \<open>march_start Y\<close> is the number of days before March 1 of year \<open>Y\<close>,
  \<open>month_start k\<close> the number of days before the \<open>k\<close>-th month after March.
\<close>

definition march_start :: "nat \<Rightarrow> nat" where
  "march_start Y = 365 * Y + Y div 4 + Y div 400 - Y div 100"

definition month_start :: "nat \<Rightarrow> nat" where
  "month_start k = (153 * k + 2) div 5"

definition march_year_length :: "nat \<Rightarrow> nat" where
  "march_year_length Y = (if leap (Suc Y) then 366 else 365)"

lemma div_Suc_dvd:
  "0 < k \<Longrightarrow> Suc n div k = n div k + (if k dvd Suc n then 1 else 0)"
  by (simp add: div_Suc dvd_eq_mod_eq_0)

lemma div_100_le_div_4: "n div 100 \<le> n div (4 :: nat)"
  by (rule div_le_mono2) simp_all

lemma march_start_Suc: "march_start (Suc Y) = march_start Y + march_year_length Y"
proof -
  have d4: "4 dvd Suc Y" if "100 dvd Suc Y"
    by (rule dvd_trans [OF _ that]) simp
  have d100: "100 dvd Suc Y" if "400 dvd Suc Y"
    by (rule dvd_trans [OF _ that]) simp
  have "march_start (Suc Y) = 365 * Suc Y + (Y div 4 + (if 4 dvd Suc Y then 1 else 0))
      + (Y div 400 + (if 400 dvd Suc Y then 1 else 0))
      - (Y div 100 + (if 100 dvd Suc Y then 1 else 0))"
    by (simp only: march_start_def div_Suc_dvd zero_less_numeral)
  also have "\<dots> = march_start Y + march_year_length Y"
    using d4 d100 div_100_le_div_4 [of Y]
    unfolding march_start_def march_year_length_def leap_def
    by (cases "4 dvd Suc Y"; cases "100 dvd Suc Y"; cases "400 dvd Suc Y")
      (simp_all add: ac_simps)
  finally show ?thesis .
qed

lemma march_start_mono: "Y \<le> Z \<Longrightarrow> march_start Y \<le> march_start Z"
  by (rule lift_Suc_mono_le [where f = march_start]) (simp_all add: march_start_Suc)

lemma march_start_unique:
  assumes "march_start Y + r = march_start Z + s"
    and "r < march_year_length Y" "s < march_year_length Z"
  shows "Y = Z \<and> r = s"
proof -
  have "\<not> Y < Z" if "march_start Y + r = march_start Z + s" "r < march_year_length Y" for Y Z r s
    using that march_start_mono [of "Suc Y" Z] by (auto simp: march_start_Suc Suc_le_eq)
  from this [OF assms(1,2)] this [OF assms(1) [symmetric] assms(3)] have "Y = Z"
    by simp
  with assms(1) show ?thesis by simp
qed

lemma march_start_cover: "\<exists>Y r. n = march_start Y + r \<and> r < march_year_length Y"
proof (induction n)
  case 0
  have "0 = march_start 0 + 0 \<and> 0 < march_year_length 0"
    by (simp add: march_start_def march_year_length_def)
  then show ?case by blast
next
  case (Suc n)
  then obtain Y r where "n = march_start Y + r" "r < march_year_length Y" by blast
  then have "Suc n = march_start Y + Suc r \<and> Suc r < march_year_length Y
      \<or> Suc n = march_start (Suc Y) + 0 \<and> 0 < march_year_length (Suc Y)"
    by (auto simp: march_start_Suc march_year_length_def)
  then show ?case by blast
qed

section \<open>The conversions on natural numbers\<close>

text \<open>
  Days are counted from March 1 of year 0; the unix epoch is day 719468. These are the
  equations of the source with unbounded numbers.
\<close>

definition epoch_shift :: nat where
  "epoch_shift = 719468"

definition civil_days :: "date \<Rightarrow> nat" where
  "civil_days dt =
     (let m = month dt; d = day dt;
          y = (if m \<le> 2 then year dt - 1 else year dt);
          era = y div 400;
          yoe = y - era * 400;
          doy = (153 * (if m > 2 then m - 3 else m + 9) + 2) div 5 + d - 1;
          doe = yoe * 365 + yoe div 4 - yoe div 100 + doy
      in era * 146097 + doe)"

definition year_of_era :: "nat \<Rightarrow> nat" where
  "year_of_era doe = (doe - doe div 1460 + doe div 36524 - doe div 146096) div 365"

definition civil_of_days :: "nat \<Rightarrow> date" where
  "civil_of_days z =
     (let era = z div 146097;
          doe = z - era * 146097;
          yoe = year_of_era doe;
          y = yoe + era * 400;
          doy = doe - (365 * yoe + yoe div 4 - yoe div 100);
          mp = (5 * doy + 2) div 153;
          d = doy - (153 * mp + 2) div 5 + 1;
          m = (if mp < 10 then mp + 3 else mp - 9)
      in Date (if m \<le> 2 then y + 1 else y) m d)"

lemma march_start_era:
  assumes "x < 400"
  shows "march_start (400 * e + x) = 146097 * e + (365 * x + x div 4 - x div 100)"
proof -
  have "(x + 4 * (100 * e)) div 4 = 100 * e + x div 4"
    and "(x + 100 * (4 * e)) div 100 = 4 * e + x div 100"
    and "(x + 400 * e) div 400 = e"
    using assms by (simp_all only: div_mult_self2 zero_neq_numeral not_False_eq_True div_less add_0_right)
  then have "march_start (400 * e + x)
      = 365 * (400 * e + x) + (100 * e + x div 4) + e - (4 * e + x div 100)"
    by (simp add: march_start_def ac_simps)
  with div_100_le_div_4 [of x] show ?thesis by simp
qed

lemma march_start_below_400: "x < 400 \<Longrightarrow> march_start x = 365 * x + x div 4 - x div 100"
  using march_start_era [of x 0] by simp

lemma year_of_era_aux:
  assumes "c < 4" "q < 25" "t < 4" "r \<le> 365"
    and long: "r = 365 \<Longrightarrow> t = 3 \<and> (q = 24 \<longrightarrow> c = 3)"
    and doe: "doe = 36524 * c + 1461 * q + 365 * t + r"
  shows "year_of_era doe = 100 * c + 4 * q + t"
proof (cases "q = 24 \<and> t = 3 \<and> r = 365")
  case True
  with long doe show ?thesis by (simp add: year_of_era_def)
next
  case False
  let ?e = "24 * c + q + 365 * t + r"
  let ?k = "?e div 1460"
  have r: "r < 365 \<or> r = 365 \<and> t = 3"
    using long assms(4) by linarith
  have k: "?e < 1460 \<and> ?k = 0 \<or> 1460 \<le> ?e \<and> ?k = 1"
  proof (cases "?e < 1460")
    case False
    then have "?k = 1" using assms(1-4) by (intro div_nat_eqI) simp_all
    with False show ?thesis by linarith
  qed simp
  have "doe = ?e + 1460 * (25 * c + q)"
    by (simp add: doe)
  then have "doe div 1460 = 25 * c + q + ?k"
    by (simp only: div_mult_self2 zero_neq_numeral not_False_eq_True)
  moreover have rest: "1461 * q + 365 * t + r < 36524"
    using False r assms(2,3) by linarith
  then have "doe div 36524 = c"
    by (intro div_nat_eqI) (simp_all add: doe)
  moreover have "doe div 146096 = 0"
    using rest assms(1) by (simp add: doe)
  moreover have kr: "?k \<le> r" "r < ?k + 365"
    using k r assms(1-3) by linarith+
  ultimately have G: "doe - doe div 1460 + doe div 36524 - doe div 146096
      = 365 * (100 * c + 4 * q + t) + (r - ?k)"
    by (simp add: doe ac_simps)
  have "r - ?k < 365" using kr by linarith
  then have "(r - ?k) div 365 = 0" by (rule div_less)
  then show ?thesis
    unfolding year_of_era_def G
    by (simp only: div_mult_self4 zero_neq_numeral not_False_eq_True add_0_right)
qed

lemma year_of_era:
  assumes "y < 400" "r < march_year_length y" "doe = march_start y + r"
  shows "year_of_era doe = y"
proof -
  define c q t where "c = y div 100" and "q = y mod 100 div 4" and "t = y mod 4"
  have t: "t = y mod 100 mod 4"
    unfolding t_def by (rule mod_mod_cancel [symmetric]) simp
  have y: "y = 100 * c + (4 * q + t)"
    unfolding c_def q_def t by simp
  have b: "c < 4" "q < 25" "t < 4" "4 * q + t < 100"
    using assms(1) y unfolding c_def q_def t_def by auto
  have "Suc y = 100 * c + (4 * q + Suc t)" using y by simp
  then have "4 dvd Suc y \<longleftrightarrow> 4 dvd (4 * (25 * c + q) + Suc t)" by (simp add: algebra_simps)
  also have "\<dots> \<longleftrightarrow> t = 3" using b(3) by presburger
  finally have four: "4 dvd Suc y \<longleftrightarrow> t = 3" .
  have "100 dvd Suc y \<longleftrightarrow> 100 dvd (4 * q + Suc t)"
    using \<open>Suc y = 100 * c + (4 * q + Suc t)\<close> by (simp only: dvd_add_right_iff dvd_triv_left)
  also have "\<dots> \<longleftrightarrow> 4 * q + Suc t = 100"
    using b(4) by (auto dest: dvd_imp_le)
  also have "\<dots> \<longleftrightarrow> q = 24 \<and> t = 3" using b(2,3) by linarith
  finally have hundred: "100 dvd Suc y \<longleftrightarrow> q = 24 \<and> t = 3" .
  have "400 dvd Suc y \<longleftrightarrow> Suc y = 400"
    using assms(1) by (auto dest: dvd_imp_le)
  also have "\<dots> \<longleftrightarrow> q = 24 \<and> t = 3 \<and> c = 3" using b(1-3) y by linarith
  finally have "400 dvd Suc y \<longleftrightarrow> q = 24 \<and> t = 3 \<and> c = 3" .
  with four hundred have "r \<le> 365" "r = 365 \<Longrightarrow> t = 3 \<and> (q = 24 \<longrightarrow> c = 3)"
    using assms(2) by (auto simp: march_year_length_def leap_def split: if_splits)
  moreover have "y div 4 = 25 * c + q" "y div 100 = c"
    using y b by (auto intro!: div_nat_eqI)
  then have "doe = 36524 * c + 1461 * q + 365 * t + r"
    using assms(1,3) y by (simp add: march_start_below_400)
  ultimately show ?thesis
    using year_of_era_aux [OF b(1-3)] y by simp
qed

section \<open>The conversions enumerate the calendar\<close>

definition march_year :: "date \<Rightarrow> nat" where
  "march_year dt = (if month dt \<le> 2 then year dt - 1 else year dt)"

definition march_month :: "date \<Rightarrow> nat" where
  "march_month dt = (if month dt > 2 then month dt - 3 else month dt + 9)"

lemma march_start_split:
  "march_start y = (y div 400) * 146097 +
     ((y - y div 400 * 400) * 365 + (y - y div 400 * 400) div 4 - (y - y div 400 * 400) div 100)"
proof -
  obtain e x where y: "y = 400 * e + x" "x < 400"
    by (metis mod_less_divisor mult_div_mod_eq zero_less_numeral)
  then have "y div 400 = e" by simp
  moreover from this y have "y - y div 400 * 400 = x" by simp
  ultimately show ?thesis
    using march_start_era [OF y(2), of e] y(1) by (simp add: ac_simps)
qed

lemma civil_days_eq:
  assumes "1 \<le> day dt"
  shows "civil_days dt = march_start (march_year dt) + (month_start (march_month dt) + (day dt - 1))"
  using assms
  unfolding civil_days_def Let_def march_start_split [of "march_year dt"]
    march_year_def [symmetric] march_month_def [symmetric] month_start_def
  by (simp add: ac_simps)

lemma valid_date_cases:
  assumes "valid_date dt"
  obtains y m d where "dt = Date y m d" "m \<in> {1,2,3,4,5,6,7,8,9,10,11,12}" "1 \<le> d"
    "d \<le> days_in_month y m"
proof (cases dt)
  case (Date y m d)
  moreover from this assms have "m = 1 \<or> m = 2 \<or> m = 3 \<or> m = 4 \<or> m = 5 \<or> m = 6 \<or> m = 7 \<or>
      m = 8 \<or> m = 9 \<or> m = 10 \<or> m = 11 \<or> m = 12"
    by (simp only: valid_date.simps) arith
  then have "m \<in> {1,2,3,4,5,6,7,8,9,10,11,12}" by simp
  ultimately show ?thesis using assms that by simp
qed

text \<open>Within its March year a date is determined by its offset, which stays below the year's length.\<close>

lemma day_of_year_bound:
  assumes "valid_date dt" "1 \<le> year dt"
  shows "month_start (march_month dt) + (day dt - 1) < march_year_length (march_year dt)"
proof -
  obtain y m d where dt: "dt = Date y m d" "m \<in> {1,2,3,4,5,6,7,8,9,10,11,12}" "1 \<le> d"
    "d \<le> days_in_month y m" using assms(1) by (rule valid_date_cases)
  with assms(2) have "Suc (y - 1) = y" by simp
  with dt show ?thesis
    by (elim insertE) (auto simp: month_start_def march_month_def march_year_def
        march_year_length_def days_in_month_def split: if_splits)
qed

lemma civil_days_next:
  assumes "valid_date dt" "1 \<le> year dt"
  shows "civil_days (next_date dt) = Suc (civil_days dt)"
proof -
  obtain y m d where dt: "dt = Date y m d" "m \<in> {1,2,3,4,5,6,7,8,9,10,11,12}" "1 \<le> d"
    "d \<le> days_in_month y m" using assms(1) by (rule valid_date_cases)
  have y: "Suc (y - 1) = y" using assms(2) dt(1) by simp
  have step: "march_start y = march_start (y - 1) + (if leap y then 366 else 365)"
    using march_start_Suc [of "y - 1"] y by (simp add: march_year_length_def)
  show ?thesis
  proof (cases "d < days_in_month y m")
    case True
    with dt(1,3) show ?thesis
      by (simp add: civil_days_eq march_month_def march_year_def)
  next
    case False
    with dt(4) have "d = days_in_month y m" by simp
    with dt(1,2) step show ?thesis
      by (elim insertE emptyE)
        (simp_all add: civil_days_eq month_start_def march_month_def march_year_def days_in_month_def)
  qed
qed

lemma leap_era: "leap (400 * e + x) = leap x"
proof -
  have "4 dvd 400 * e" "100 dvd 400 * e" "400 dvd 400 * e"
    by (simp_all add: dvd_mult2)
  then show ?thesis unfolding leap_def by (simp only: dvd_add_right_iff)
qed

lemma march_year_length_era: "march_year_length (400 * e + x) = march_year_length x"
  using leap_era [of e "Suc x"] by (simp add: march_year_length_def)

lemma march_start_400: "march_start 400 = 146097"
  by (simp add: march_start_def)

lemma civil_of_days_march:
  assumes "r < march_year_length Y"
  shows "civil_of_days (march_start Y + r) =
    (let mp = (5 * r + 2) div 153; m = (if mp < 10 then mp + 3 else mp - 9)
     in Date (if m \<le> 2 then Y + 1 else Y) m (r - month_start mp + 1))"
proof -
  obtain e x where Y: "Y = 400 * e + x" "x < 400"
    by (metis mod_less_divisor mult_div_mod_eq zero_less_numeral)
  have r: "r < march_year_length x"
    using assms unfolding Y(1) march_year_length_era .
  have z: "march_start Y + r = 146097 * e + (march_start x + r)"
    by (simp add: Y march_start_era march_start_below_400)
  have "march_start x + r < march_start (Suc x)"
    using r by (simp add: march_start_Suc)
  also have "\<dots> \<le> 146097"
    using march_start_mono [of "Suc x" 400] Y(2) by (simp add: march_start_400)
  finally have "march_start x + r < 146097" .
  then have "(march_start Y + r) div 146097 = e"
    unfolding z by (simp only: div_mult_self4 zero_neq_numeral not_False_eq_True div_less add_0_right)
  moreover have "march_start Y + r - e * 146097 = march_start x + r"
    by (simp add: z)
  moreover have "year_of_era (march_start x + r) = x"
    using year_of_era [OF Y(2) r] by simp
  moreover have "march_start x + r - (365 * x + x div 4 - x div 100) = r"
    using Y(2) by (simp add: march_start_below_400)
  moreover have "x + e * 400 = Y" by (simp add: Y)
  ultimately show ?thesis
    unfolding civil_of_days_def Let_def month_start_def by (simp only:)
qed

lemma civil_of_days_civil_days:
  assumes "valid_date dt" "1 \<le> year dt"
  shows "civil_of_days (civil_days dt) = dt"
proof -
  obtain y m d where dt: "dt = Date y m d" "m \<in> {1,2,3,4,5,6,7,8,9,10,11,12}" "1 \<le> d"
    "d \<le> days_in_month y m" using assms(1) by (rule valid_date_cases)
  let ?r = "month_start (march_month dt) + (day dt - 1)"
  have "d \<le> (if m = 2 then 29 else if m \<in> {4, 6, 9, 11} then 30 else 31)"
    using dt(4) by (auto simp: days_in_month_def split: if_splits)
  with dt(1-3) have mp: "(5 * ?r + 2) div 153 = march_month dt"
    by (intro div_nat_eqI; elim insertE) (simp_all add: month_start_def march_month_def)
  have "civil_days dt = march_start (march_year dt) + ?r"
    using dt by (intro civil_days_eq) simp
  with mp have "civil_of_days (civil_days dt) =
    (let mp = march_month dt; m = (if mp < 10 then mp + 3 else mp - 9)
     in Date (if m \<le> 2 then march_year dt + 1 else march_year dt) m (?r - month_start mp + 1))"
    using civil_of_days_march [OF day_of_year_bound [OF assms]] by simp
  also have "\<dots> = dt"
    using dt assms(2) by (auto simp: march_month_def march_year_def)
  finally show ?thesis .
qed

lemma civil_days_date_of_day: "civil_days (date_of_day n) = epoch_shift + n"
proof (induction n)
  case 0
  show ?case by (simp add: date_of_day_def unix_epoch_def civil_days_def epoch_shift_def)
next
  case (Suc n)
  then show ?case
    using civil_days_next [OF valid_date_of_day [of n]] year_date_of_day [of n]
    by (simp add: date_of_day_Suc)
qed

lemma civil_of_days_eq: "civil_of_days (epoch_shift + n) = date_of_day n"
  using civil_of_days_civil_days [OF valid_date_of_day [of n]] year_date_of_day [of n]
  by (simp add: civil_days_date_of_day)

lemma civil_days_ge_epoch:
  assumes "valid_date dt" "1970 \<le> year dt"
  shows "epoch_shift \<le> civil_days dt"
proof -
  have d: "1 \<le> day dt" using assms(1) by (cases dt) simp
  show ?thesis
  proof (cases "month dt \<le> 2")
    case True
    then have "306 \<le> month_start (march_month dt)"
      using assms(1) by (cases dt) (auto simp: month_start_def march_month_def)
    moreover have "march_start 1969 \<le> march_start (march_year dt)"
      using True assms(2) by (intro march_start_mono) (simp add: march_year_def)
    ultimately show ?thesis
      by (simp add: civil_days_eq [OF d] epoch_shift_def march_start_def [of 1969])
  next
    case False
    then have "march_start 1970 \<le> march_start (march_year dt)"
      using assms(2) by (intro march_start_mono) (simp add: march_year_def)
    then show ?thesis
      by (simp add: civil_days_eq [OF d] epoch_shift_def march_start_def [of 1970])
  qed
qed

lemma date_of_day_surj:
  assumes "valid_date dt" "1970 \<le> year dt"
  shows "date_of_day (civil_days dt - epoch_shift) = dt"
  using civil_days_ge_epoch [OF assms] civil_of_days_civil_days [OF assms(1)] assms(2)
    civil_of_days_eq [of "civil_days dt - epoch_shift"]
  by simp

lemma valid_date_bounds:
  assumes "valid_date dt"
  shows "1 \<le> month dt" "month dt \<le> 12" "1 \<le> day dt" "day dt \<le> 31"
  using assms by (cases dt; auto simp: days_in_month_def split: if_splits)+

lemmas date_of_day_bounds = valid_date_bounds [OF valid_date_of_day]

lemma year_date_of_day_le: "365 * (year (date_of_day n) - 1) \<le> epoch_shift + n"
proof -
  let ?dt = "date_of_day n"
  have "365 * (year ?dt - 1) \<le> 365 * march_year ?dt"
    by (simp add: march_year_def)
  also have "\<dots> \<le> march_start (march_year ?dt)"
    using div_100_le_div_4 [of "march_year ?dt"] by (simp add: march_start_def)
  also have "\<dots> \<le> civil_days ?dt"
    by (simp only: civil_days_eq [OF date_of_day_bounds(3)] le_add1)
  finally show ?thesis by (simp add: civil_days_date_of_day)
qed

lemma civil_days_le:
  assumes "valid_date dt"
  shows "civil_days dt \<le> 366 * year dt + 400"
proof -
  note b = valid_date_bounds [OF assms]
  have "march_start (march_year dt) \<le> 366 * march_year dt"
    by (simp add: march_start_def)
  moreover have "march_year dt \<le> year dt" by (simp add: march_year_def)
  moreover have "march_month dt \<le> 11" using b(1,2) by (auto simp: march_month_def)
  then have "month_start (march_month dt) \<le> 337" by (simp add: month_start_def)
  ultimately show ?thesis
    using b(4) by (simp add: civil_days_eq [OF b(3)])
qed

text \<open>Inside an era: the year found starts before the day and ends after it.\<close>

lemma year_of_era_bounds:
  assumes "doe < 146097"
  shows "year_of_era doe < 400" "march_start (year_of_era doe) \<le> doe"
    "doe - march_start (year_of_era doe) \<le> 365"
proof -
  obtain y r where yr: "doe = march_start y + r" "r < march_year_length y"
    using march_start_cover by blast
  with assms have "march_start y < march_start 400" by (simp add: march_start_400)
  then have "y < 400" using march_start_mono [of 400 y] by linarith
  with yr have "year_of_era doe = y" using year_of_era by blast
  with yr \<open>y < 400\<close> show "year_of_era doe < 400" "march_start (year_of_era doe) \<le> doe"
    "doe - march_start (year_of_era doe) \<le> 365"
    by (simp_all add: march_year_length_def split: if_splits)
qed

end
