(* ===== verification/Rust_Text.thy ===== *)
theory Rust_Text
  imports Prelude "HOL-Library.Sublist" "HOL-Library.Char_ord"
begin

text \<open>
  The text functions of the Rust standard library that the firmware calls, on byte
  strings: a \<open>&str\<close> or a \<open>&[u8]\<close> is the list of its bytes, a \<open>char\<close> of HOL being a
  byte. Integer formatting (\<open>{}\<close>, \<open>{:02}\<close>, \<open>{:04}\<close>, \<open>{:012x}\<close>), integer parsing
  (\<open>str::parse\<close>), searching and splitting (\<open>find\<close>, \<open>split_once\<close>, \<open>split\<close>,
  \<open>split_ascii_whitespace\<close>, \<open>lines\<close>), trimming, ASCII case folding and UTF-8
  validation. The lemmas are the evaluation rules the component theories use and the
  round trip of decimal printing and parsing.
\<close>

section \<open>Formatting of integers\<close>

definition digit_char :: "nat \<Rightarrow> char" where
  "digit_char n = char_of (48 + n)"

fun dec :: "nat \<Rightarrow> string" where
  "dec n = (if n < 10 then [digit_char n] else dec (n div 10) @ [digit_char (n mod 10)])"

declare dec.simps [simp del]

definition hex_char :: "nat \<Rightarrow> char" where
  "hex_char n = (if n < 10 then char_of (48 + n) else char_of (87 + n))"

fun hex :: "nat \<Rightarrow> string" where
  "hex n = (if n < 16 then [hex_char n] else hex (n div 16) @ [hex_char (n mod 16)])"

declare hex.simps [simp del]

text \<open>\<open>{:0w}\<close>: zeros on the left up to width \<open>w\<close>; the sign of a negative number counts.\<close>

definition pad_zero :: "nat \<Rightarrow> string \<Rightarrow> string" where
  "pad_zero w s = replicate (w - length s) CHR ''0'' @ s"

definition fmt_zero_padded :: "nat \<Rightarrow> 'a::len word \<Rightarrow> string" where
  "fmt_zero_padded w x = pad_zero w (dec (unat x))"

definition fmt_zero_padded_signed :: "nat \<Rightarrow> 'a::len word \<Rightarrow> string" where
  "fmt_zero_padded_signed w x =
     (if x <s 0 then CHR ''-'' # pad_zero (w - 1) (dec (nat (- sint x)))
      else pad_zero w (dec (nat (sint x))))"

definition fmt_hex_padded :: "nat \<Rightarrow> 'a::len word \<Rightarrow> string" where
  "fmt_hex_padded w x = pad_zero w (hex (unat x))"

definition fmt_display :: "'a::len word \<Rightarrow> string" where
  "fmt_display x = dec (unat x)"

text \<open>A line of the log: what \<open>info!\<close> or \<open>warn!\<close> of the crate \<open>log\<close> is handed.\<close>

datatype log_level = Info | Warn

type_synonym log_line = "log_level \<times> string"

section \<open>Parsing of integers\<close>

definition is_digit :: "char \<Rightarrow> bool" where
  "is_digit c \<longleftrightarrow> 48 \<le> (of_char c :: nat) \<and> (of_char c :: nat) \<le> 57"

definition digits_value :: "string \<Rightarrow> nat" where
  "digits_value ds = foldl (\<lambda>a c. 10 * a + (of_char c - 48)) 0 ds"

text \<open>
  \<open>s.parse()\<close> into an unsigned type with values below \<open>bound\<close>: an optional \<open>+\<close>, then
  at least one digit and nothing else; \<open>None\<close> for every error of \<open>ParseIntError\<close>.
\<close>

definition parse_digits :: "nat \<Rightarrow> string \<Rightarrow> nat option" where
  "parse_digits bound ds =
     (if ds \<noteq> [] \<and> list_all is_digit ds \<and> digits_value ds < bound
      then Some (digits_value ds) else None)"

fun parse_unsigned :: "nat \<Rightarrow> string \<Rightarrow> nat option" where
  "parse_unsigned bound [] = None"
| "parse_unsigned bound (c # cs) =
     (if c = CHR ''+'' then parse_digits bound cs else parse_digits bound (c # cs))"

definition parse_u16 :: "string \<Rightarrow> u16 option" where
  "parse_u16 s = map_option of_nat (parse_unsigned (2 ^ 16) s)"

definition parse_u32 :: "string \<Rightarrow> u32 option" where
  "parse_u32 s = map_option of_nat (parse_unsigned (2 ^ 32) s)"

fun parse_i32 :: "string \<Rightarrow> i32 option" where
  "parse_i32 [] = None"
| "parse_i32 (c # cs) =
     (if c = CHR ''-'' then map_option (\<lambda>n. - of_nat n) (parse_digits (2 ^ 31 + 1) cs)
      else map_option of_nat (parse_unsigned (2 ^ 31) (c # cs)))"

section \<open>Searching and splitting\<close>

text \<open>\<open>find\<close>: the index of the first occurrence of a pattern.\<close>

fun find_sub :: "string \<Rightarrow> string \<Rightarrow> nat option" where
  "find_sub pat [] = (if pat = [] then Some 0 else None)"
| "find_sub pat (c # cs) =
     (if prefix pat (c # cs) then Some 0 else map_option Suc (find_sub pat cs))"

definition split_once :: "string \<Rightarrow> string \<Rightarrow> (string \<times> string) option" where
  "split_once pat s =
     map_option (\<lambda>i. (take i s, drop (i + length pat) s)) (find_sub pat s)"

fun split_by :: "(char \<Rightarrow> bool) \<Rightarrow> string \<Rightarrow> string list" where
  "split_by p [] = [[]]"
| "split_by p (c # cs) =
     (if p c then [] # split_by p cs
      else (case split_by p cs of [] \<Rightarrow> [[c]] | w # ws \<Rightarrow> (c # w) # ws))"

definition is_ascii_whitespace :: "char \<Rightarrow> bool" where
  "is_ascii_whitespace c \<longleftrightarrow> (of_char c :: nat) \<in> {9, 10, 12, 13, 32}"

definition split_ascii_whitespace :: "string \<Rightarrow> string list" where
  "split_ascii_whitespace s = filter (\<lambda>w. w \<noteq> []) (split_by is_ascii_whitespace s)"

definition CR :: char where
  "CR = CHR 0x0D"

definition LF :: char where
  "LF = CHR 0x0A"

definition strip_cr :: "string \<Rightarrow> string" where
  "strip_cr s = (if s \<noteq> [] \<and> last s = CR then butlast s else s)"

text \<open>
  \<open>lines\<close>: a line that ends with a line feed loses it and a carriage return before it;
  the rest after the last line feed is a line as it is, unless it is empty.
\<close>

definition lines :: "string \<Rightarrow> string list" where
  "lines s = (let ps = split_by (\<lambda>c. c = LF) s
              in map strip_cr (butlast ps) @ (if last ps = [] then [] else [last ps]))"

text \<open>
  \<open>Ipv4Addr::from_str\<close>: four decimal octets separated by dots, without leading zeros;
  \<open>None\<close> for \<open>AddrParseError\<close>.
\<close>

definition parse_octet :: "string \<Rightarrow> u8 option" where
  "parse_octet w =
     (if w \<noteq> [] \<and> length w \<le> 3 \<and> list_all is_digit w \<and> (hd w = CHR ''0'' \<longrightarrow> length w = 1) \<and>
         digits_value w < 256
      then Some (of_nat (digits_value w)) else None)"

definition parse_ipv4 :: "string \<Rightarrow> (u8 \<times> u8 \<times> u8 \<times> u8) option" where
  "parse_ipv4 s =
     (case split_by (\<lambda>c. c = CHR ''.'') s of
        [w0, w1, w2, w3] \<Rightarrow> do {
          a \<leftarrow> parse_octet w0;
          b \<leftarrow> parse_octet w1;
          c \<leftarrow> parse_octet w2;
          d \<leftarrow> parse_octet w3;
          Some (a, b, c, d)
        }
      | _ \<Rightarrow> None)"

text \<open>\<open>Iterator::next\<close>: the item and the iterator after it; \<open>None\<close> at the end.\<close>

fun next_item :: "'a list \<Rightarrow> ('a \<times> 'a list) option" where
  "next_item [] = None"
| "next_item (x # xs) = Some (x, xs)"

section \<open>Trimming and case folding\<close>

text \<open>The UTF-8 encodings of the characters with the Unicode property \<open>White_Space\<close>.\<close>

definition white_space :: "string list" where
  "white_space = map (map char_of)
     ([[9], [10], [11], [12], [13], [32], [0xC2, 0x85], [0xC2, 0xA0], [0xE1, 0x9A, 0x80]]
      @ map (\<lambda>b. [0xE2, 0x80, b]) [0x80 ..< 0x8B]
      @ [[0xE2, 0x80, 0xA8], [0xE2, 0x80, 0xA9], [0xE2, 0x80, 0xAF],
         [0xE2, 0x81, 0x9F], [0xE3, 0x80, 0x80 :: nat]])"

definition front_len :: "string list \<Rightarrow> string \<Rightarrow> nat" where
  "front_len ws s = (case find (\<lambda>w. prefix w s) ws of None \<Rightarrow> 0 | Some w \<Rightarrow> length w)"

lemma front_len_le: "front_len ws s \<le> length s"
  by (auto simp: front_len_def find_Some_iff split: option.splits dest: prefix_length_le)

function strip_front :: "string list \<Rightarrow> string \<Rightarrow> string" where
  "strip_front ws s =
     (if front_len ws s = 0 then s else strip_front ws (drop (front_len ws s) s))"
  by pat_completeness auto
termination
proof (relation "measure (\<lambda>(ws, s). length s)")
  fix ws :: "string list" and s :: string
  assume "front_len ws s \<noteq> 0"
  with front_len_le [of ws s] show
    "((ws, drop (front_len ws s) s), ws, s) \<in> measure (\<lambda>(ws, s). length s)"
    by simp
qed simp

declare strip_front.simps [simp del]

definition trim_start :: "string \<Rightarrow> string" where
  "trim_start s = strip_front white_space s"

definition trim_end :: "string \<Rightarrow> string" where
  "trim_end s = rev (strip_front (map rev white_space) (rev s))"

definition trim :: "string \<Rightarrow> string" where
  "trim s = trim_end (trim_start s)"

definition to_ascii_lowercase :: "char \<Rightarrow> char" where
  "to_ascii_lowercase c =
     (let n = of_char c :: nat in if 65 \<le> n \<and> n \<le> 90 then char_of (n + 32) else c)"

definition eq_ignore_ascii_case :: "string \<Rightarrow> string \<Rightarrow> bool" where
  "eq_ignore_ascii_case s t \<longleftrightarrow> map to_ascii_lowercase s = map to_ascii_lowercase t"

section \<open>UTF-8 validation\<close>

definition byte_in :: "nat \<Rightarrow> nat \<Rightarrow> char \<Rightarrow> bool" where
  "byte_in lo hi c \<longleftrightarrow> lo \<le> of_char c \<and> of_char c \<le> hi"

definition cont :: "char \<Rightarrow> bool" where
  "cont c \<longleftrightarrow> byte_in 0x80 0xBF c"

text \<open>\<open>core::str::from_utf8\<close> accepts exactly the well-formed byte sequences.\<close>

fun utf8_valid :: "string \<Rightarrow> bool" where
  "utf8_valid [] = True"
| "utf8_valid (a # s) =
     (if byte_in 0 0x7F a then utf8_valid s
      else (case s of [] \<Rightarrow> False | b # s1 \<Rightarrow>
       if byte_in 0xC2 0xDF a then cont b \<and> utf8_valid s1
       else (case s1 of [] \<Rightarrow> False | c # s2 \<Rightarrow>
        if byte_in 0xE0 0xE0 a then byte_in 0xA0 0xBF b \<and> cont c \<and> utf8_valid s2
        else if byte_in 0xED 0xED a then byte_in 0x80 0x9F b \<and> cont c \<and> utf8_valid s2
        else if byte_in 0xE1 0xEF a then cont b \<and> cont c \<and> utf8_valid s2
        else (case s2 of [] \<Rightarrow> False | d # s3 \<Rightarrow>
         (if byte_in 0xF0 0xF0 a then byte_in 0x90 0xBF b
          else if byte_in 0xF1 0xF3 a then cont b
          else byte_in 0xF4 0xF4 a \<and> byte_in 0x80 0x8F b)
         \<and> cont c \<and> cont d \<and> utf8_valid s3))))"

definition from_utf8 :: "string \<Rightarrow> string option" where
  "from_utf8 s = (if utf8_valid s then Some s else None)"

section \<open>Printing then parsing decimal numbers\<close>

lemma of_char_digit_char [simp]: "n < 10 \<Longrightarrow> of_char (digit_char n) = 48 + n"
  by (simp add: digit_char_def)

lemma is_digit_digit_char [simp]: "n < 10 \<Longrightarrow> is_digit (digit_char n)"
  by (simp add: is_digit_def)

lemma dec_nonempty [simp]: "dec n \<noteq> []"
  by (subst dec.simps) simp

lemma dec_digits: "list_all is_digit (dec n)"
proof (induction n rule: dec.induct)
  case (1 n)
  then show ?case by (subst dec.simps) auto
qed

lemma digits_value_snoc:
  "digits_value (ds @ [c]) = 10 * digits_value ds + (of_char c - 48)"
  by (simp add: digits_value_def)

lemma digits_value_dec [simp]: "digits_value (dec n) = n"
proof (induction n rule: dec.induct)
  case (1 n)
  show ?case
  proof (cases "n < 10")
    case True
    then show ?thesis by (subst dec.simps) (simp add: digits_value_def)
  next
    case False
    with "1.IH" show ?thesis
      by (subst dec.simps) (simp add: digits_value_snoc)
  qed
qed

lemma digits_value_zeros: "digits_value (replicate k CHR ''0'' @ ds) = digits_value ds"
  by (induction k) (simp_all add: digits_value_def)

lemma digits_value_pad_zero [simp]: "digits_value (pad_zero w ds) = digits_value ds"
  by (simp add: pad_zero_def digits_value_zeros)

lemma is_digit_zero [simp]: "is_digit CHR ''0''"
  by (simp add: is_digit_def)

lemma pad_zero_digits: "list_all is_digit ds \<Longrightarrow> list_all is_digit (pad_zero w ds)"
  by (auto simp: pad_zero_def list_all_iff)

lemma pad_zero_nonempty [simp]: "ds \<noteq> [] \<Longrightarrow> pad_zero w ds \<noteq> []"
  by (simp add: pad_zero_def)

lemma length_pad_zero: "length (pad_zero w s) = max w (length s)"
  by (simp add: pad_zero_def)

lemma not_digit_sign [simp]: "\<not> is_digit CHR ''+''" "\<not> is_digit CHR ''-''"
  by (simp_all add: is_digit_def)

lemma parse_unsigned_digits:
  assumes "ds \<noteq> []" "list_all is_digit ds"
  shows "parse_unsigned bound ds =
    (if digits_value ds < bound then Some (digits_value ds) else None)"
  using assms by (cases ds) (auto simp: parse_digits_def)

lemma parse_unsigned_pad_dec [text_simps]:
  "parse_unsigned bound (pad_zero w (dec n)) = (if n < bound then Some n else None)"
  by (simp add: parse_unsigned_digits pad_zero_digits dec_digits)

lemma parse_i32_digits:
  assumes "ds \<noteq> []" "list_all is_digit ds"
  shows "parse_i32 ds = map_option of_nat (parse_unsigned (2 ^ 31) ds)"
  using assms by (cases ds) auto

lemma length_dec_le: "n < 10 ^ k \<Longrightarrow> 0 < k \<Longrightarrow> length (dec n) \<le> k"
proof (induction k arbitrary: n)
  case (Suc k)
  show ?case
  proof (cases "n < 10")
    case True
    then show ?thesis by (subst dec.simps) simp
  next
    case False
    with Suc.prems have "0 < k" by (cases k) auto
    moreover from Suc.prems have "n div 10 < 10 ^ k"
      by (simp add: less_mult_imp_div_less mult.commute)
    ultimately have "length (dec (n div 10)) \<le> k" using Suc.IH by blast
    with False show ?thesis by (subst dec.simps) simp
  qed
qed simp

section \<open>Searching and splitting a text built from pieces\<close>

lemma find_sub_skip:
  assumes "p \<notin> set xs"
  shows "find_sub (p # ps) (xs @ ys) = map_option ((+) (length xs)) (find_sub (p # ps) ys)"
  using assms
proof (induction xs)
  case (Cons x xs)
  then show ?case by (cases "find_sub (p # ps) ys") auto
qed (cases "find_sub (p # ps) ys", auto)

lemma find_sub_here: "pat \<noteq> [] \<Longrightarrow> find_sub pat (pat @ ys) = Some 0"
  by (cases pat) auto

lemma find_sub_absent: "p \<notin> set xs \<Longrightarrow> find_sub (p # ps) xs = None"
  by (induction xs) auto

lemma find_sub_bound: "find_sub pat s = Some i \<Longrightarrow> i + length pat \<le> length s"
proof (induction pat s arbitrary: i rule: find_sub.induct)
  case (2 pat c cs)
  then show ?case
    by (auto split: if_splits dest: prefix_length_le)
qed (simp split: if_splits)

lemma find_sub_split:
  "find_sub pat s = Some i \<Longrightarrow> s = take i s @ pat @ drop (i + length pat) s"
proof (induction pat s arbitrary: i rule: find_sub.induct)
  case (2 pat c cs)
  then show ?case
    by (auto split: if_splits simp: prefix_def)
qed (simp split: if_splits)

lemma split_once_char:
  assumes "c \<notin> set xs"
  shows "split_once [c] (xs @ c # ys) = Some (xs, ys)"
  using find_sub_skip [of c xs "[]" "c # ys"] assms by (simp add: split_once_def)

lemma split_by_nonempty [simp]: "split_by p s \<noteq> []"
  by (induction s) (auto split: list.splits)

lemma split_by_none: "list_all (\<lambda>c. \<not> p c) xs \<Longrightarrow> split_by p xs = [xs]"
  by (induction xs) auto

lemma split_by_append:
  assumes "list_all (\<lambda>c. \<not> p c) xs" "p c"
  shows "split_by p (xs @ c # ys) = xs # split_by p ys"
  using assms by (induction xs) auto

lemma split_ascii_whitespace_token:
  assumes "list_all (\<lambda>c. \<not> is_ascii_whitespace c) w" "w \<noteq> []" "is_ascii_whitespace c"
  shows "split_ascii_whitespace (w @ c # s) = w # split_ascii_whitespace s"
  using assms by (simp add: split_ascii_whitespace_def split_by_append)

lemma split_ascii_whitespace_last:
  assumes "list_all (\<lambda>c. \<not> is_ascii_whitespace c) w" "w \<noteq> []"
  shows "split_ascii_whitespace w = [w]"
  using assms by (simp add: split_ascii_whitespace_def split_by_none)

lemma digits_not_whitespace:
  "list_all is_digit ds \<Longrightarrow> list_all (\<lambda>c. \<not> is_ascii_whitespace c) ds"
  by (auto simp: list_all_iff is_digit_def is_ascii_whitespace_def)

section \<open>Trimming\<close>

lemma strip_front_id:
  assumes "\<And>w. w \<in> set ws \<Longrightarrow> w \<noteq> [] \<and> (s = [] \<or> hd w \<noteq> hd s)"
  shows "strip_front ws s = s"
proof -
  have "find (\<lambda>w. prefix w s) ws = None"
    using assms by (fastforce simp: find_None_iff prefix_def)
  then show ?thesis
    by (subst strip_front.simps) (simp add: front_len_def)
qed

text \<open>A printable ASCII character other than the space is no white space and part of none.\<close>

definition graphic :: "char \<Rightarrow> bool" where
  "graphic c \<longleftrightarrow> byte_in 33 126 c"

lemma digit_graphic: "is_digit c \<Longrightarrow> graphic c"
  by (simp add: is_digit_def graphic_def byte_in_def)

lemma white_space_graphic:
  assumes "w \<in> set white_space" "graphic c"
  shows "w \<noteq> [] \<and> hd w \<noteq> c \<and> last w \<noteq> c"
  using assms by (auto simp: white_space_def graphic_def byte_in_def)

lemma trim_start_graphic: "graphic c \<Longrightarrow> trim_start (c # s) = c # s"
  unfolding trim_start_def by (rule strip_front_id) (auto dest: white_space_graphic)

lemma trim_end_graphic: "graphic (last s) \<Longrightarrow> s \<noteq> [] \<Longrightarrow> trim_end s = s"
  unfolding trim_end_def
  by (subst strip_front_id) (auto simp: hd_rev dest: white_space_graphic)

lemma trim_graphic: "graphic (hd s) \<Longrightarrow> graphic (last s) \<Longrightarrow> s \<noteq> [] \<Longrightarrow> trim s = s"
  unfolding trim_def by (cases s) (simp_all add: trim_start_graphic trim_end_graphic)

lemma front_len_single:
  assumes "[c] \<in> set ws" "\<And>w. w \<in> set ws \<Longrightarrow> w \<noteq> [] \<and> (hd w = c \<longrightarrow> w = [c])"
  shows "front_len ws (c # s) = 1"
proof -
  have "find (\<lambda>w. prefix w (c # s)) ws = Some [c]"
  proof (cases "find (\<lambda>w. prefix w (c # s)) ws")
    case None
    with assms(1) show ?thesis by (auto simp: find_None_iff)
  next
    case (Some w)
    then have "w \<in> set ws" "prefix w (c # s)" by (auto simp: find_Some_iff)
    with assms(2) [of w] show ?thesis using Some by (cases w) auto
  qed
  then show ?thesis by (simp add: front_len_def)
qed

lemma trim_start_space: "trim_start (CHR '' '' # s) = trim_start s"
proof -
  have "front_len white_space (CHR '' '' # s) = 1"
  proof (rule front_len_single)
    have "char_of (32 :: nat) = CHR '' ''" by (simp add: char_of_eq_iff)
    then show "[CHR '' ''] \<in> set white_space" by (simp add: white_space_def)
    show "w \<noteq> [] \<and> (hd w = CHR '' '' \<longrightarrow> w = [CHR '' ''])" if "w \<in> set white_space" for w
      using that by (auto simp: white_space_def char_of_eq_iff)
  qed
  then show ?thesis
    by (simp add: trim_start_def strip_front.simps [of white_space "CHR '' '' # s"])
qed


section \<open>Addresses\<close>

lemma hd_dec: "hd (dec n) = CHR ''0'' \<longleftrightarrow> n = 0"
proof (induction n rule: dec.induct)
  case (1 n)
  have "digit_char n = CHR ''0'' \<longleftrightarrow> n = 0" if "n < 10"
    using that by (simp add: digit_char_def char_of_eq_iff take_bit_nat_eq_self)
  with 1 show ?case by (subst dec.simps) auto
qed

lemma parse_octet_dec: "parse_octet (dec (unat x)) = Some x"
proof -
  have "unat x < 256" using unat_less [of x] by simp
  moreover from this have "length (dec (unat x)) \<le> 3" by (intro length_dec_le) simp_all
  moreover have "length (dec 0) = 1" by (simp add: dec.simps)
  ultimately show ?thesis by (auto simp: parse_octet_def dec_digits hd_dec)
qed

lemma parse_ipv4_dotted:
  "parse_ipv4 (dec (unat a) @ CHR ''.'' # dec (unat b) @ CHR ''.'' # dec (unat c) @ CHR ''.'' # dec (unat d))
    = Some (a, b, c, d)"
proof -
  have "list_all (\<lambda>c. c \<noteq> CHR ''.'') (dec n)" for n
    using dec_digits [of n] by (auto simp: list_all_iff is_digit_def)
  then show ?thesis
    by (simp add: parse_ipv4_def split_by_append split_by_none parse_octet_dec)
qed

end
