(* ===== verification/Wallclock.thy ===== *)
theory Wallclock
  imports Civil Rust_Text Heapless
begin

text \<open>
  \<open>src/wallclock.rs\<close>: the wall clock anchored by an HTTP \<open>Date\<close> header and advanced by the
  monotonic clock, the conversion between civil time and unix seconds, the parser of
  \<open>Date\<close> and the formatter of RFC 3339 timestamps. A reading of the monotonic clock
  (\<open>Instant::now().as_millis()\<close>) is an argument.
\<close>

section \<open>The anchored clock\<close>

text \<open>The statics \<open>WALL_CLOCK_ANCHOR_UNIX\<close> and \<open>WALL_CLOCK_ANCHOR_BOOT_MS\<close>.\<close>

record wall_clock =
  anchor_unix :: u64
  anchor_boot_ms :: u64

definition wall_clock_init :: wall_clock where
  "wall_clock_init = \<lparr>anchor_unix = 0, anchor_boot_ms = 0\<rparr>"

definition set_wall_clock :: "u64 \<Rightarrow> u64 \<Rightarrow> wall_clock \<Rightarrow> wall_clock" where
  "set_wall_clock unix_secs now_ms wc =
     wc\<lparr>anchor_unix := unix_secs, anchor_boot_ms := now_ms\<rparr>"

definition unix_now_secs :: "wall_clock \<Rightarrow> u64 \<Rightarrow> u64" where
  "unix_now_secs wc now_ms =
     (let anchor = anchor_unix wc; anchor_at = anchor_boot_ms wc
      in if anchor = 0 then 0
         else anchor + saturating_sub now_ms anchor_at div 1000)"

section \<open>Civil time to unix seconds\<close>

definition unix_from_ymdhms :: "i32 \<Rightarrow> u32 \<Rightarrow> u32 \<Rightarrow> u32 \<Rightarrow> u32 \<Rightarrow> u32 \<Rightarrow> u64" where
  "unix_from_ymdhms y0 mo d h mi s =
     (let y = (if mo \<le> 2 then y0 - 1 else y0);
          era = signed_div (if 0 \<le>s y then y else y - 399) 400;
          yoe = (scast (y - era * 400) :: u64);
          doy = (153 * (ucast (if mo > 2 then mo - 3 else mo + 9) :: u64) + 2) div 5
                + ucast d - 1;
          doe = yoe * 365 + yoe div 4 - yoe div 100 + doy;
          days = (scast era :: i64) * 146097 + doe - 719468
      in days * 86400 + ucast h * 3600 + ucast mi * 60 + ucast s)"

section \<open>The HTTP Date parser\<close>

definition month_number :: "string \<Rightarrow> u32 option" where
  "month_number s =
     map_of [(''Jan'', 1), (''Feb'', 2), (''Mar'', 3), (''Apr'', 4), (''May'', 5), (''Jun'', 6),
             (''Jul'', 7), (''Aug'', 8), (''Sep'', 9), (''Oct'', 10), (''Nov'', 11), (''Dec'', 12)] s"

definition parse_http_date :: "string \<Rightarrow> u64 option" where
  "parse_http_date s = do {
     comma \<leftarrow> find_sub '','' s;
     let rest = trim_start (drop (comma + 1) s);
     let it = split_ascii_whitespace rest;
     (t_day, it) \<leftarrow> next_item it;
     day \<leftarrow> parse_u32 t_day;
     (t_month, it) \<leftarrow> next_item it;
     month \<leftarrow> month_number t_month;
     (t_year, it) \<leftarrow> next_item it;
     year \<leftarrow> parse_i32 t_year;
     (t_hms, it) \<leftarrow> next_item it;
     let hms = split_by (\<lambda>c. c = CHR '':'') t_hms;
     (t_h, hms) \<leftarrow> next_item hms;
     h \<leftarrow> parse_u32 t_h;
     (t_m, hms) \<leftarrow> next_item hms;
     m \<leftarrow> parse_u32 t_m;
     (t_s, hms) \<leftarrow> next_item hms;
     s2 \<leftarrow> parse_u32 t_s;
     Some (unix_from_ymdhms year month day h m s2)
   }"

section \<open>Unix seconds to RFC 3339\<close>

text \<open>The numbers the formatter prints: year, month, day, hour, minute, second.\<close>

definition rfc3339_fields :: "u64 \<Rightarrow> i32 \<times> u32 \<times> u32 \<times> u32 \<times> u32 \<times> u32" where
  "rfc3339_fields unix =
     (let days = unix div 86400 :: i64;
          secs_today = (ucast (unix mod 86400) :: u32);
          z = days + 719468;
          era = signed_div (if 0 \<le>s z then z else z - 146096) 146097;
          doe = z - era * 146097 :: u64;
          yoe = (doe - doe div 1460 + doe div 36524 - doe div 146096) div 365;
          y = (ucast yoe :: i32) + (scast era :: i32) * 400;
          doy = doe - (365 * yoe + yoe div 4 - yoe div 100);
          mp = (5 * doy + 2) div 153;
          d = (ucast (doy - (153 * mp + 2) div 5 + 1) :: u32);
          m = (ucast (if mp < 10 then mp + 3 else mp - 9) :: u32);
          y = (if m \<le> 2 then y + 1 else y);
          h = secs_today div 3600;
          mi = (secs_today mod 3600) div 60;
          s = secs_today mod 60
      in (y, m, d, h, mi, s))"

definition fmt_rfc3339 :: "push_str \<Rightarrow> u64 \<Rightarrow> string \<Rightarrow> string option" where
  "fmt_rfc3339 push unix out =
     (let (y, m, d, h, mi, s) = rfc3339_fields unix
      in write_fmt push 40 out
           [fmt_zero_padded_signed 4 y, ''-'', fmt_zero_padded 2 m, ''-'', fmt_zero_padded 2 d,
            ''T'', fmt_zero_padded 2 h, '':'', fmt_zero_padded 2 mi, '':'', fmt_zero_padded 2 s,
            ''.000000Z''])"

section \<open>The formatter follows the calendar\<close>

text \<open>What the fields are, for a date and a second of the day.\<close>

definition fields_of :: "date \<Rightarrow> nat \<Rightarrow> i32 \<times> u32 \<times> u32 \<times> u32 \<times> u32 \<times> u32" where
  "fields_of dt t =
     (of_nat (year dt), of_nat (month dt), of_nat (day dt),
      of_nat (t div 3600), of_nat (t mod 3600 div 60), of_nat (t mod 60))"

text \<open>
  The numbers inside an era, on words: with \<open>doe\<close> below 146097 nothing wraps around, and
  each is the number the conversion on natural numbers has.
\<close>

definition yoe_word :: "u64 \<Rightarrow> u64" where
  "yoe_word doe = (doe - doe div 1460 + doe div 36524 - doe div 146096) div 365"

definition doy_word :: "u64 \<Rightarrow> u64" where
  "doy_word doe = (let yoe = yoe_word doe in doe - (365 * yoe + yoe div 4 - yoe div 100))"

lemma unat_yoe_word:
  assumes "unat doe < 146097"
  shows "unat (yoe_word doe) = year_of_era (unat doe)"
proof -
  let ?E = "unat doe"
  have 1: "unat (doe - doe div 1460) = ?E - ?E div 1460"
    by (simp add: unat_minus_small unat_div)
  have 2: "unat (doe - doe div 1460 + doe div 36524) = ?E - ?E div 1460 + ?E div 36524"
    using assms div_le_dividend [of ?E 36524]
    by (subst unat_add_small) (simp_all add: 1 unat_div)
  have "?E div 146096 \<le> ?E div 36524" by (rule div_le_mono2) simp_all
  then have "unat (doe - doe div 1460 + doe div 36524 - doe div 146096)
      = ?E - ?E div 1460 + ?E div 36524 - ?E div 146096"
    by (subst unat_minus_small) (simp_all add: 2 unat_div)
  then show ?thesis
    by (simp add: yoe_word_def year_of_era_def unat_div)
qed

lemma unat_doy_word:
  assumes "unat doe < 146097"
  shows "unat (doy_word doe) = unat doe - march_start (year_of_era (unat doe))"
proof -
  let ?Y = "year_of_era (unat doe)"
  note Y = year_of_era_bounds [OF assms] and yoe = unat_yoe_word [OF assms]
  have 1: "unat (365 * yoe_word doe) = 365 * ?Y"
    using Y(1) by (subst unat_mult_small) (simp_all add: yoe)
  have 2: "unat (365 * yoe_word doe + yoe_word doe div 4) = 365 * ?Y + ?Y div 4"
    using Y(1) by (subst unat_add_small) (simp_all add: 1 yoe unat_div)
  have 3: "unat (365 * yoe_word doe + yoe_word doe div 4 - yoe_word doe div 100) = march_start ?Y"
    using Y(1) div_100_le_div_4 [of ?Y]
    by (subst unat_minus_small) (simp_all add: 2 yoe unat_div march_start_below_400)
  show ?thesis
    using Y(2) by (simp add: doy_word_def Let_def unat_minus_small 3)
qed

lemma unat_month_start_word:
  assumes "unat doy \<le> 365"
  shows "unat ((5 * doy + 2) div 153 :: u64) = (5 * unat doy + 2) div 153"
    and "unat (doy - (153 * ((5 * doy + 2) div 153) + 2) div 5 + 1 :: u64)
      = unat doy - month_start ((5 * unat doy + 2) div 153) + 1"
proof -
  let ?r = "unat doy" and ?mp = "(5 * doy + 2) div 153"
  let ?M = "(5 * ?r + 2) div 153"
  have "unat (5 * doy + 2) = 5 * ?r + 2"
    using assms by (simp add: unat_word_ariths)
  then show mp: "unat ?mp = ?M" by (simp add: unat_div)
  have M: "?M \<le> 11" using assms by simp
  have le: "month_start ?M \<le> ?r"
    unfolding month_start_def by simp
  have "unat (153 * ?mp + 2) = 153 * ?M + 2"
    using M by (simp add: unat_word_ariths mp)
  then have "unat ((153 * ?mp + 2) div 5) = month_start ?M"
    by (simp add: unat_div month_start_def)
  with le have "unat (doy - (153 * ?mp + 2) div 5) = ?r - month_start ?M"
    by (subst unat_minus_small) simp_all
  with assms show "unat (doy - (153 * ?mp + 2) div 5 + 1) = ?r - month_start ?M + 1"
    by (subst unat_add_small) simp_all
qed

lemma rfc3339_fields_eq:
  "rfc3339_fields unix = fields_of (date_of_day (unat unix div 86400)) (unat unix mod 86400)"
proof -
  define D where "D = unat unix div 86400"
  define Z where "Z = D + 719468"
  have "unat unix < 2 ^ 64" using unsigned_less [of unix] by simp
  then have D: "D < 2 ^ 48" unfolding D_def by (simp add: less_mult_imp_div_less)
  let ?z = "unix div 86400 + 719468"
  have z: "unat ?z = Z"
    using D by (simp add: unat_word_ariths unat_div D_def Z_def)
  have Z: "Z < 2 ^ 63" using D by (simp add: Z_def)
  have zpos: "0 \<le>s ?z" using Z z by (intro zero_sle_unat) simp
  have era: "signed_div ?z 146097 = ?z div 146097"
    using Z z by (intro signed_div_eq_div) simp_all
  have era_n: "unat (?z div 146097) = Z div 146097"
    by (simp add: unat_div z)
  have era_32: "(scast (?z div 146097) :: i32) = of_nat (Z div 146097)"
    using scast_eq_of_nat [of "?z div 146097"] Z by (simp add: era_n less_mult_imp_div_less)
  define doe where "doe = ?z mod 146097"
  have e: "unat doe = Z mod 146097" by (simp add: unat_mod z doe_def)
  then have E: "unat doe < 146097" by simp
  have doe: "?z - ?z div 146097 * 146097 = doe"
    unfolding doe_def by (rule minus_div_mult_eq_mod)
  define R where "R = unat (doy_word doe)"
  define M where "M = (5 * R + 2) div 153"
  have R: "R \<le> 365" "R = unat doe - march_start (year_of_era (unat doe))"
    using year_of_era_bounds(3) [OF E] by (simp_all add: R_def unat_doy_word [OF E])
  have M: "M \<le> 11" using R(1) by (simp add: M_def)
  let ?mp = "(5 * doy_word doe + 2) div 153"
  have mp: "unat ?mp = M"
    and day: "unat (doy_word doe - (153 * ?mp + 2) div 5 + 1) = R - month_start M + 1"
    using unat_month_start_word [of "doy_word doe"] R(1) by (simp_all only: M_def R_def)
  let ?m = "if M < 10 then M + 3 else M - 9"
  have "unat (if ?mp < 10 then ?mp + 3 else ?mp - 9) = ?m"
    using M mp by (auto simp: word_less_nat_alt unat_add_small unat_minus_small)
  then have m: "(ucast (if ?mp < 10 then ?mp + 3 else ?mp - 9) :: u32) = of_nat ?m"
    by (rule ucast_of_unat)
  have y: "(ucast (yoe_word doe) :: i32) + of_nat (Z div 146097) * 400
      = of_nat (year_of_era (unat doe) + Z div 146097 * 400)"
    by (simp add: ucast_of_unat [OF unat_yoe_word [OF E]])
  have "date_of_day D = civil_of_days Z"
    using civil_of_days_eq [of D] by (simp add: epoch_shift_def Z_def add.commute)
  also have "\<dots> = Date (if ?m \<le> 2 then year_of_era (unat doe) + Z div 146097 * 400 + 1
      else year_of_era (unat doe) + Z div 146097 * 400) ?m (R - month_start M + 1)"
    using R(2) year_of_era_bounds(1) [OF E]
    by (simp add: civil_of_days_def Let_def month_start_def M_def march_start_below_400
        minus_div_mult_eq_mod flip: e)
  finally have date: "date_of_day D = Date (if ?m \<le> 2 then year_of_era (unat doe) + Z div 146097 * 400 + 1
      else year_of_era (unat doe) + Z div 146097 * 400) ?m (R - month_start M + 1)" .
  have m_n: "unat (of_nat ?m :: u32) = ?m"
    using M by (intro unat_of_nat_small) auto
  have m_le: "(of_nat ?m :: u32) \<le> 2 \<longleftrightarrow> ?m \<le> 2"
    unfolding word_le_nat_alt m_n by simp
  have "(ucast (unix mod 86400) :: u32) = of_nat (unat unix mod 86400)"
    by (rule ucast_of_unat) (simp add: unat_mod)
  then have t: "unat (ucast (unix mod 86400) :: u32) = unat unix mod 86400"
    by (simp only: unat_of_nat_small [where 'a = 32, simplified])
  show ?thesis
    unfolding rfc3339_fields_def Let_def fields_of_def D_def [symmetric] date
    apply (simp only: zpos if_True era doe yoe_word_def [symmetric] era_32 y m m_le
        doy_word_def [unfolded Let_def, symmetric] prod.inject date.sel)
    apply (intro conjI)
    subgoal by simp
    subgoal by (rule refl)
    subgoal by (rule ucast_of_unat [OF day])
    subgoal by (rule word_eq_of_nat) (simp add: unat_div t)
    subgoal by (rule word_eq_of_nat) (simp add: unat_div unat_mod t)
    subgoal by (rule word_eq_of_nat) (simp add: unat_mod t)
    done
qed

section \<open>Civil time to unix seconds is exact\<close>

lemma unix_from_ymdhms_eq:
  assumes dt: "valid_date dt" and y: "1970 \<le> year dt" "year dt < 2 ^ 31"
  shows "unix_from_ymdhms (of_nat (year dt)) (of_nat (month dt)) (of_nat (day dt)) h mi s
    = of_nat ((civil_days dt - epoch_shift) * 86400
        + unat h * 3600 + unat mi * 60 + unat s)"
proof -
  note b = valid_date_bounds [OF dt]
  define Y where "Y = march_year dt"
  define K where "K = march_month dt"
  have Y: "Y < 2 ^ 31" using y(2) by (auto simp: Y_def march_year_def)
  have K: "K \<le> 11" using b(1,2) by (auto simp: K_def march_month_def)
  let ?mo = "of_nat (month dt) :: u32"
  have mo: "unat ?mo = month dt" using b(2) by (simp add: unat_of_nat_small)
  then have mo_le: "?mo \<le> 2 \<longleftrightarrow> month dt \<le> 2" "2 < ?mo \<longleftrightarrow> 2 < month dt"
    by (simp_all add: word_le_nat_alt word_less_nat_alt)
  let ?y = "of_nat Y :: i32"
  have yw: "(if ?mo \<le> 2 then of_nat (year dt) - 1 else of_nat (year dt)) = ?y"
    using y(1) by (simp add: mo_le Y_def march_year_def of_nat_diff)
  have yn: "unat ?y = Y" using Y by (simp add: unat_of_nat_small)
  have pos: "0 \<le>s ?y" using Y by (intro zero_sle_unat) (simp add: yn)
  have era: "signed_div ?y 400 = ?y div 400"
    using Y by (intro signed_div_eq_div) (simp_all add: yn)
  have yoe: "(scast (?y - ?y div 400 * 400) :: u64) = of_nat (Y mod 400)"
    unfolding minus_div_mult_eq_mod
    using Y by (subst scast_eq_of_nat) (simp_all add: unat_mod yn)
  have era64: "(scast (?y div 400) :: i64) = of_nat (Y div 400)"
    using Y by (subst scast_eq_of_nat) (simp_all add: unat_div yn)
  have k: "(ucast (if 2 < ?mo then ?mo - 3 else ?mo + 9) :: u64) = of_nat K"
    using b(2) by (intro ucast_of_unat)
      (auto simp: mo_le mo K_def march_month_def unat_minus_small unat_add_small)
  let ?x = "Y mod 400" and ?e = "Y div 400"
  have x: "?x < 400" by simp
  have "unat (153 * of_nat K + 2 :: u64) = 153 * K + 2"
    using K by (simp add: unat_word_ariths unat_of_nat_small)
  then have ms: "(153 * of_nat K + 2 :: u64) div 5 = of_nat (month_start K)"
    by (intro word_eq_of_nat) (simp add: unat_div month_start_def)
  have x64: "unat (of_nat ?x :: u64) = ?x"
    using x by (intro unat_of_nat_small) simp
  have xd: "(of_nat ?x :: u64) div 4 = of_nat (?x div 4)"
    "(of_nat ?x :: u64) div 100 = of_nat (?x div 100)"
    by (rule word_eq_of_nat, simp add: unat_div x64)+
  have d: "(ucast (of_nat (day dt) :: u32) :: u64) = of_nat (day dt - 1) + 1"
    using b(3,4) by (subst ucast_of_unat [OF unat_of_nat_small]) (simp_all add: of_nat_diff)
  have "civil_days dt = ?e * 146097 + (?x * 365 + ?x div 4 - ?x div 100)
      + (month_start K + (day dt - 1))"
    using civil_days_eq [OF b(3)] march_start_split [of Y]
    by (simp only: Y_def K_def minus_div_mult_eq_mod)
  then have "of_nat (civil_days dt) = (of_nat ?e * 146097
      + (of_nat ?x * 365 + of_nat (?x div 4) - of_nat (?x div 100)
         + (of_nat (month_start K) + of_nat (day dt - 1))) :: u64)"
    using div_100_le_div_4 [of ?x] by (simp add: of_nat_diff)
  then have days: "of_nat ?e * 146097
      + (of_nat ?x * 365 + of_nat (?x div 4) - of_nat (?x div 100)
         + (of_nat (month_start K) + ucast (of_nat (day dt) :: u32) - 1)) - 719468
      = (of_nat (civil_days dt - epoch_shift) :: u64)"
    using civil_days_ge_epoch [OF dt y(1)] by (simp add: d of_nat_diff epoch_shift_def)
  show ?thesis
    unfolding unix_from_ymdhms_def Let_def
    by (simp only: yw pos if_True era yoe era64 k ms xd days) simp
qed

section \<open>The parser reads every IMF-fixdate\<close>

text \<open>The \<open>Date\<close> format of HTTP, \<open>Sat, 02 May 2026 15:47:17 GMT\<close>, as a server writes it.\<close>

definition month_name :: "nat \<Rightarrow> string" where
  "month_name m = [''Jan'', ''Feb'', ''Mar'', ''Apr'', ''May'', ''Jun'',
                   ''Jul'', ''Aug'', ''Sep'', ''Oct'', ''Nov'', ''Dec''] ! (m - 1)"

definition hms_text :: "nat \<Rightarrow> nat \<Rightarrow> nat \<Rightarrow> string" where
  "hms_text h mi s =
     pad_zero 2 (dec h) @ CHR '':'' # pad_zero 2 (dec mi) @ CHR '':'' # pad_zero 2 (dec s)"

definition imf_fixdate :: "string \<Rightarrow> date \<Rightarrow> nat \<Rightarrow> nat \<Rightarrow> nat \<Rightarrow> string" where
  "imf_fixdate wd dt h mi s =
     wd @ CHR '','' # CHR '' '' # pad_zero 2 (dec (day dt)) @ CHR '' '' # month_name (month dt) @
     CHR '' '' # pad_zero 4 (dec (year dt)) @ CHR '' '' # hms_text h mi s @ CHR '' '' # ''GMT''"

lemma month_name_cases:
  assumes "1 \<le> m" "m \<le> 12"
  shows "month_number (month_name m) = Some (of_nat m)"
    and "list_all (\<lambda>c. \<not> is_ascii_whitespace c) (month_name m)" and "month_name m \<noteq> []"
proof -
  have "m \<in> {1,2,3,4,5,6,7,8,9,10,11,12}" using assms by (simp, arith)
  then show "month_number (month_name m) = Some (of_nat m)"
    "list_all (\<lambda>c. \<not> is_ascii_whitespace c) (month_name m)" "month_name m \<noteq> []"
    by (elim insertE emptyE; simp add: month_name_def month_number_def is_ascii_whitespace_def)+
qed

lemma parse_u32_pad_dec: "n < 2 ^ 32 \<Longrightarrow> parse_u32 (pad_zero w (dec n)) = Some (of_nat n)"
  by (simp add: parse_u32_def parse_unsigned_pad_dec)

lemma parse_i32_pad_dec: "n < 2 ^ 31 \<Longrightarrow> parse_i32 (pad_zero w (dec n)) = Some (of_nat n)"
  by (simp add: parse_i32_digits pad_zero_digits dec_digits parse_unsigned_pad_dec)

lemma pad_dec_no_space [simp]: "list_all (\<lambda>c. \<not> is_ascii_whitespace c) (pad_zero w (dec n))"
  by (intro digits_not_whitespace pad_zero_digits dec_digits)

lemma pad_dec_no_colon: "list_all (\<lambda>c. c \<noteq> CHR '':'') (pad_zero w (dec n))"
proof -
  have "list_all is_digit (pad_zero w (dec n))" by (intro pad_zero_digits dec_digits)
  then show ?thesis by (auto simp: list_all_iff is_digit_def)
qed

lemma hms_text_no_space: "list_all (\<lambda>c. \<not> is_ascii_whitespace c) (hms_text h mi s)" "hms_text h mi s \<noteq> []"
  by (simp_all add: hms_text_def) (simp add: is_ascii_whitespace_def)

lemma split_hms_text:
  "split_by (\<lambda>c. c = CHR '':'') (hms_text h mi s)
    = [pad_zero 2 (dec h), pad_zero 2 (dec mi), pad_zero 2 (dec s)]"
  by (simp add: hms_text_def split_by_append split_by_none pad_dec_no_colon)

lemma trim_start_space_pad_dec:
  "trim_start (CHR '' '' # pad_zero w (dec n) @ s) = pad_zero w (dec n) @ s"
proof -
  have "list_all is_digit (pad_zero w (dec n))" "pad_zero w (dec n) \<noteq> []"
    by (simp_all add: pad_zero_digits dec_digits)
  then obtain c ds where "pad_zero w (dec n) = c # ds" "is_digit c"
    by (cases "pad_zero w (dec n)") auto
  then show ?thesis by (simp add: trim_start_space trim_start_graphic digit_graphic)
qed

lemma parse_imf_fixdate:
  assumes wd: "CHR '','' \<notin> set wd" and dt: "valid_date dt" "1970 \<le> year dt" "year dt < 2 ^ 31"
    and hms: "h < 2 ^ 32" "mi < 2 ^ 32" "s < 2 ^ 32"
  shows "parse_http_date (imf_fixdate wd dt h mi s)
    = Some (of_nat ((civil_days dt - epoch_shift) * 86400 + h * 3600 + mi * 60 + s))"
proof -
  note b = valid_date_bounds [OF dt(1)]
  let ?tail = "pad_zero 2 (dec (day dt)) @ CHR '' '' # month_name (month dt) @
     CHR '' '' # pad_zero 4 (dec (year dt)) @ CHR '' '' # hms_text h mi s @ CHR '' '' # ''GMT''"
  have find: "find_sub '','' (imf_fixdate wd dt h mi s) = Some (length wd)"
    using find_sub_skip [OF wd, of "[]"] by (simp add: imf_fixdate_def)
  have rest: "trim_start (drop (length wd + 1) (imf_fixdate wd dt h mi s)) = ?tail"
    by (simp add: imf_fixdate_def trim_start_space_pad_dec)
  have sp: "is_ascii_whitespace CHR '' ''" by (simp add: is_ascii_whitespace_def)
  have gmt: "split_ascii_whitespace ''GMT'' = [''GMT'']"
    by (rule split_ascii_whitespace_last) (simp_all add: is_ascii_whitespace_def)
  have tokens: "split_ascii_whitespace ?tail =
    [pad_zero 2 (dec (day dt)), month_name (month dt), pad_zero 4 (dec (year dt)),
     hms_text h mi s, ''GMT'']"
    using month_name_cases(2,3) [OF b(1,2)]
    by (simp add: split_ascii_whitespace_token sp hms_text_no_space gmt)
  have u: "unat (of_nat n :: u32) = n" if "n < 2 ^ 32" for n
    using that by (intro unat_of_nat_small) simp
  have "unix_from_ymdhms (of_nat (year dt)) (of_nat (month dt)) (of_nat (day dt))
      (of_nat h) (of_nat mi) (of_nat s)
    = of_nat ((civil_days dt - epoch_shift) * 86400 + h * 3600 + mi * 60 + s)"
    using unix_from_ymdhms_eq [OF dt, of "of_nat h" "of_nat mi" "of_nat s"]
    by (simp only: u [OF hms(1)] u [OF hms(2)] u [OF hms(3)])
  then show ?thesis
    using b(4) dt(3) hms month_name_cases(1) [OF b(1,2)]
    by (simp add: parse_http_date_def find rest [simplified] tokens split_hms_text
        parse_u32_pad_dec parse_i32_pad_dec)
qed

section \<open>The timestamps\<close>

text \<open>The text of an RFC 3339 timestamp with microseconds, for a date and a second of the day.\<close>

definition rfc3339_text :: "date \<Rightarrow> nat \<Rightarrow> string" where
  "rfc3339_text dt t =
     pad_zero 4 (dec (year dt)) @ ''-'' @ pad_zero 2 (dec (month dt)) @ ''-'' @
     pad_zero 2 (dec (day dt)) @ ''T'' @ pad_zero 2 (dec (t div 3600)) @ '':'' @
     pad_zero 2 (dec (t mod 3600 div 60)) @ '':'' @ pad_zero 2 (dec (t mod 60)) @ ''.000000Z''"

text \<open>The pieces the formatter writes.\<close>

definition rfc3339_pieces :: "u64 \<Rightarrow> string list" where
  "rfc3339_pieces unix =
     (let (y, m, d, h, mi, s) = rfc3339_fields unix
      in [fmt_zero_padded_signed 4 y, ''-'', fmt_zero_padded 2 m, ''-'', fmt_zero_padded 2 d,
          ''T'', fmt_zero_padded 2 h, '':'', fmt_zero_padded 2 mi, '':'', fmt_zero_padded 2 s,
          ''.000000Z''])"

lemma fmt_rfc3339_pieces: "fmt_rfc3339 push unix out = write_fmt push 40 out (rfc3339_pieces unix)"
  by (simp add: fmt_rfc3339_def rfc3339_pieces_def split_def Let_def)

lemma fmt_zero_padded_small:
  "n < 2 ^ LENGTH('a) \<Longrightarrow> fmt_zero_padded w (of_nat n :: 'a::len word) = pad_zero w (dec n)"
  by (simp add: fmt_zero_padded_def unat_of_nat_small)

lemma fmt_zero_padded_signed_small:
  assumes "n < 2 ^ (LENGTH('a) - 1)"
  shows "fmt_zero_padded_signed w (of_nat n :: 'a::len word) = pad_zero w (dec n)"
proof -
  have "n < 2 ^ LENGTH('a)"
    using assms by (rule less_le_trans) (simp add: power_increasing)
  then have n: "unat (of_nat n :: 'a word) = n" by (rule unat_of_nat_small)
  with assms have s: "sint (of_nat n :: 'a word) = int n" by (simp add: sint_eq_unat)
  then show ?thesis
    by (simp add: fmt_zero_padded_signed_def word_sless_alt)
qed

lemma concat_rfc3339_pieces:
  assumes "unat unix < 2 ^ 55"
  shows "concat (rfc3339_pieces unix)
    = rfc3339_text (date_of_day (unat unix div 86400)) (unat unix mod 86400)"
proof -
  let ?dt = "date_of_day (unat unix div 86400)" and ?t = "unat unix mod 86400"
  have "unat unix div 86400 < 2 ^ 39"
    using assms by (simp add: less_mult_imp_div_less)
  then have "year ?dt < 2 ^ 31"
    using year_date_of_day_le [of "unat unix div 86400"] by (simp add: epoch_shift_def)
  moreover have "?t < 86400" by simp
  moreover from this have "?t div 3600 < 2 ^ 32" "?t mod 3600 div 60 < 2 ^ 32" "?t mod 60 < 2 ^ 32"
    by simp_all
  ultimately show ?thesis
    using date_of_day_bounds [of "unat unix div 86400"]
    by (simp add: rfc3339_pieces_def rfc3339_fields_eq fields_of_def rfc3339_text_def
        fmt_zero_padded_small fmt_zero_padded_signed_small)
qed

text \<open>For every number of seconds the timestamp has at most 34 bytes.\<close>

lemma length_fmt_zero_padded:
  assumes "unat (x :: u32) < 100"
  shows "length (fmt_zero_padded 2 x) = 2"
  using length_dec_le [of "unat x" 2] assms
  by (simp add: fmt_zero_padded_def length_pad_zero)

lemma length_fmt_signed_i32: "length (fmt_zero_padded_signed 4 (y :: i32)) \<le> 11"
proof -
  have "- (2 ^ 31) \<le> sint y" "sint y < 2 ^ 31"
    using sint_ge [of y] sint_lt [of y] by simp_all
  then have "nat (- sint y) < 10 ^ 10" "nat (sint y) < 10 ^ 10" by simp_all
  then have "length (dec (nat (- sint y))) \<le> 10" "length (dec (nat (sint y))) \<le> 10"
    by (intro length_dec_le; simp)+
  then show ?thesis by (simp add: fmt_zero_padded_signed_def length_pad_zero)
qed

lemma length_rfc3339_pieces: "length (concat (rfc3339_pieces unix)) \<le> 34"
proof -
  let ?dt = "date_of_day (unat unix div 86400)" and ?t = "unat unix mod 86400"
  have "?t < 86400" by simp
  then have "?t div 3600 < 100" "?t mod 3600 div 60 < 100" "?t mod 60 < 100"
    by simp_all
  then have "length (fmt_zero_padded 2 (of_nat k :: u32)) = 2"
    if "k \<in> {month ?dt, day ?dt, ?t div 3600, ?t mod 3600 div 60, ?t mod 60}" for k
    using that date_of_day_bounds [of "unat unix div 86400"]
    by (intro length_fmt_zero_padded) (auto simp: unat_of_nat_small)
  then show ?thesis
    using length_fmt_signed_i32 [of "of_nat (year ?dt)"]
    by (simp add: rfc3339_pieces_def rfc3339_fields_eq fields_of_def)
qed

context bounded_buffer
begin

lemma fmt_rfc3339_eq: "fmt_rfc3339 push unix [] = Some (concat (rfc3339_pieces unix))"
  using length_rfc3339_pieces [of unix] by (simp add: fmt_rfc3339_pieces write_fmt_eq)

lemma fmt_rfc3339_length: "fmt_rfc3339 push unix [] = Some ts \<Longrightarrow> length ts \<le> 34"
  using length_rfc3339_pieces [of unix] by (simp add: fmt_rfc3339_eq)

end

section \<open>The clock advances with the monotonic clock\<close>

lemma unix_now_unanchored [simp]: "anchor_unix wc = 0 \<Longrightarrow> unix_now_secs wc ms = 0"
  by (simp add: unix_now_secs_def)

lemma unix_now_after_set:
  "u \<noteq> 0 \<Longrightarrow> unix_now_secs (set_wall_clock u at wc) ms = u + saturating_sub ms at div 1000"
  by (simp add: unix_now_secs_def set_wall_clock_def)

text \<open>An anchored clock that does not run past the range of \<open>u64\<close>.\<close>

definition anchored :: "wall_clock \<Rightarrow> bool" where
  "anchored wc \<longleftrightarrow> anchor_unix wc \<noteq> 0 \<and> unat (anchor_unix wc) + 2 ^ 64 div 1000 < 2 ^ 64"

lemma unat_unix_now:
  assumes "anchored wc"
  shows "unat (unix_now_secs wc ms)
    = unat (anchor_unix wc) + (unat ms - unat (anchor_boot_ms wc)) div 1000"
proof -
  have "unat ms < 2 ^ 64" using unsigned_less [of ms] by simp
  then have "(unat ms - unat (anchor_boot_ms wc)) div 1000 \<le> 2 ^ 64 div 1000"
    by (intro div_le_mono) simp
  with assms have "unat (anchor_unix wc) + (unat ms - unat (anchor_boot_ms wc)) div 1000 < 2 ^ 64"
    unfolding anchored_def by linarith
  then show ?thesis
    using assms by (simp add: unix_now_secs_def anchored_def unat_word_ariths unat_div)
qed

lemma unix_now_mono:
  "anchored wc \<Longrightarrow> a \<le> b \<Longrightarrow> unix_now_secs wc a \<le> unix_now_secs wc b"
  by (simp add: word_le_nat_alt unat_unix_now div_le_mono diff_le_mono)

section \<open>Properties\<close>

lemma date_of_day_code: "date_of_day n = civil_of_days (epoch_shift + n)"
  by (simp add: civil_of_days_eq)

text \<open>C21. For every 64-bit number of seconds the formatter computes the calendar date of the day
  since 1970-01-01 (counted day by day with the Gregorian leap years) and the hour, minute and
  second of that day, each at its machine width.\<close>

theorem rfc3339_fields_calendar:
  "rfc3339_fields unix = fields_of (date_of_day (unat unix div 86400)) (unat unix mod 86400)"
  by (rule rfc3339_fields_eq)

text \<open>C16. From a \<open>Date\<close> header to the timestamps: for every IMF-fixdate with a four-digit year
  from 1970 on, the parser succeeds, and formatting what it returns gives back the same date
  and time of day.\<close>

theorem date_header_roundtrip:
  assumes "bounded_buffer push" "CHR '','' \<notin> set wd"
    and "valid_date dt" "1970 \<le> year dt" "year dt \<le> 9999" "h < 24" "mi < 60" "s < 60"
  shows "\<exists>u. parse_http_date (imf_fixdate wd dt h mi s) = Some u \<and>
    fmt_rfc3339 push u [] = Some (rfc3339_text dt (h * 3600 + mi * 60 + s))"
proof -
  let ?D = "civil_days dt - epoch_shift" and ?t = "h * 3600 + mi * 60 + s"
  have t: "?t < 86400" using assms(6-8) by linarith
  have dt: "date_of_day ?D = dt" using date_of_day_surj [OF assms(3,4)] .
  have "?D < 4000000" using civil_days_le [OF assms(3)] assms(5) by simp
  then have small: "?D * 86400 + ?t < 2 ^ 55" using t by simp
  then have u: "unat (of_nat (?D * 86400 + ?t) :: u64) = ?D * 86400 + ?t"
    by (intro unat_of_nat_small) simp
  have "parse_http_date (imf_fixdate wd dt h mi s) = Some (of_nat (?D * 86400 + ?t))"
    using parse_imf_fixdate [OF assms(2-4), of h mi s] assms(5-8) by (simp add: add.assoc)
  moreover have "fmt_rfc3339 push (of_nat (?D * 86400 + ?t)) [] = Some (rfc3339_text dt ?t)"
    using bounded_buffer.fmt_rfc3339_eq [OF assms(1)] small t
    by (simp add: concat_rfc3339_pieces u dt del: of_nat_add of_nat_mult)
  ultimately show ?thesis by blast
qed

lemma date_header_roundtrip_witness:
  "\<exists>u. parse_http_date (imf_fixdate ''Sat'' (Date 2026 5 2) 15 47 17) = Some u \<and>
    fmt_rfc3339 bounded_push u [] = Some (rfc3339_text (Date 2026 5 2) 56837)"
  using date_header_roundtrip [OF ref_buffer.bounded_buffer_axioms, of "''Sat''" "Date 2026 5 2" 15 47 17]
  by (simp add: days_in_month_def)

end
