(* ===== verification/Http.thy ===== *)
theory Http
  imports Rust_Text
begin

text \<open>
  \<open>src/net/http.rs\<close>: the errors of the HTTP client, the parsed response and its header
  lookup. The error values of \<open>embassy-net\<close> and \<open>embedded-tls\<close> are known by their
  \<open>Debug\<close> text; the code tells only \<open>TlsError::ConnectionClosed\<close> from the others.
\<close>

type_synonym bytes = string
type_synonym ConnectError = string

datatype TlsError = ConnectionClosed | TlsOther string

datatype ApiError =
    Tcp ConnectError
  | Tls TlsError
  | Fmt
  | Truncated usize
  | BadResponse
  | ClientError u16
  | ServerError u16
  | AuthError u16

text \<open>The two \<open>From\<close> conversions that the \<open>?\<close> operator applies.\<close>

definition ApiError_from_ConnectError :: "ConnectError \<Rightarrow> ApiError" where
  "ApiError_from_ConnectError e = Tcp e"

definition ApiError_from_TlsError :: "TlsError \<Rightarrow> ApiError" where
  "ApiError_from_TlsError e = Tls e"

record Response =
  rs_status :: u16
  rs_headers :: string
  rs_body :: bytes

fun header_in :: "string list \<Rightarrow> string \<Rightarrow> string option" where
  "header_in [] name = None"
| "header_in (line # ls) name =
     (case split_once '':'' line of
        Some (k, v) \<Rightarrow> if eq_ignore_ascii_case k name then Some (trim v) else header_in ls name
      | None \<Rightarrow> header_in ls name)"

definition header :: "Response \<Rightarrow> string \<Rightarrow> string option" where
  "header r name = header_in (lines (rs_headers r)) name"

definition CRLF :: string where
  "CRLF = [CR, LF]"

definition parse_response :: "bytes \<Rightarrow> ApiError + Response" where
  "parse_response buf =
     (case find_sub (CRLF @ CRLF) buf of None \<Rightarrow> Inl BadResponse | Some split \<Rightarrow>
      case from_utf8 (take split buf) of None \<Rightarrow> Inl BadResponse | Some head \<Rightarrow>
      case next_item (lines head) of None \<Rightarrow> Inl BadResponse | Some (status_line, _) \<Rightarrow>
      let parts = split_ascii_whitespace status_line;
          parts = (case next_item parts of None \<Rightarrow> parts | Some (_, parts) \<Rightarrow> parts) in
      case next_item parts of None \<Rightarrow> Inl BadResponse | Some (code, _) \<Rightarrow>
      case parse_u16 code of None \<Rightarrow> Inl BadResponse | Some st \<Rightarrow>
      Inr \<lparr>rs_status = st,
           rs_headers = (case split_once CRLF head of None \<Rightarrow> [] | Some (_, h) \<Rightarrow> h),
           rs_body = drop (split + 4) buf\<rparr>)"

section \<open>The responses a server writes\<close>

text \<open>
  The text of a response: the status line and the header lines, separated by CR LF, an
  empty line and the body. Lines are printable ASCII; names have no colon; values have no
  blank at either end.
\<close>

fun join_crlf :: "string list \<Rightarrow> string" where
  "join_crlf [] = []"
| "join_crlf [l] = l"
| "join_crlf (l # m # ls) = l @ CR # LF # join_crlf (m # ls)"

definition printable :: "char \<Rightarrow> bool" where
  "printable c \<longleftrightarrow> byte_in 32 126 c"

definition line_ok :: "string \<Rightarrow> bool" where
  "line_ok l \<longleftrightarrow> l \<noteq> [] \<and> list_all printable l"

definition status_line :: "string \<Rightarrow> nat \<Rightarrow> string \<Rightarrow> string" where
  "status_line version code reason = version @ CHR '' '' # dec code @ CHR '' '' # reason"

fun header_line :: "string \<times> string \<Rightarrow> string" where
  "header_line (k, v) = k @ CHR '':'' # CHR '' '' # v"

definition response_text ::
    "string \<Rightarrow> nat \<Rightarrow> string \<Rightarrow> (string \<times> string) list \<Rightarrow> bytes \<Rightarrow> bytes" where
  "response_text version code reason hs b =
     join_crlf (status_line version code reason # map header_line hs) @ CR # LF # CR # LF # b"

definition version_ok :: "string \<Rightarrow> bool" where
  "version_ok version \<longleftrightarrow> version \<noteq> [] \<and> list_all graphic version"

fun header_ok :: "string \<times> string \<Rightarrow> bool" where
  "header_ok (k, v) \<longleftrightarrow> list_all graphic k \<and> CHR '':'' \<notin> set k \<and> list_all printable v \<and>
     v \<noteq> [] \<and> graphic (hd v) \<and> graphic (last v)"

section \<open>Lines\<close>

lemma graphic_printable: "graphic c \<Longrightarrow> printable c"
  by (simp add: graphic_def printable_def byte_in_def)

lemma digit_printable: "is_digit c \<Longrightarrow> printable c"
  by (simp add: digit_graphic graphic_printable)

lemma printable_not_eol [simp]: "\<not> printable CR" "\<not> printable LF"
  by (simp_all add: printable_def byte_in_def CR_def LF_def)

lemma printable_not_in:
  "list_all printable l \<Longrightarrow> CR \<notin> set l" "list_all printable l \<Longrightarrow> LF \<notin> set l"
  by (auto simp: list_all_iff)

lemma printable_space [simp]: "printable CHR '' ''" "printable CHR '':''"
  by (simp_all add: printable_def byte_in_def)

lemma graphic_all_printable: "list_all graphic l \<Longrightarrow> list_all printable l"
  by (auto simp: list_all_iff graphic_printable)

lemma eol_distinct [simp]: "CR \<noteq> LF" "LF \<noteq> CR"
  by (simp_all add: CR_def LF_def)

lemma header_line_ok: "header_ok h \<Longrightarrow> line_ok (header_line h)"
  by (cases h) (auto simp: line_ok_def graphic_all_printable)

lemma status_line_ok:
  "version_ok version \<Longrightarrow> list_all printable reason \<Longrightarrow> line_ok (status_line version code reason)"
  using dec_digits [of code]
  by (auto simp: line_ok_def status_line_def version_ok_def graphic_all_printable
      list_all_iff digit_printable graphic_printable)

lemma join_crlf_start:
  assumes "line_ok l"
  obtains c s where "join_crlf (l # ls) = c # s" "c \<noteq> CR"
proof -
  from assms obtain c s where l: "l = c # s" "printable c"
    by (cases l) (auto simp: line_ok_def)
  then have "c \<noteq> CR" by auto
  with l that show thesis by (cases ls) auto
qed

text \<open>The empty line of a response is found behind its last header line.\<close>

lemma find_sub_join:
  assumes "list_all line_ok ls" "ls \<noteq> []"
  shows "find_sub [CR, LF, CR, LF] (join_crlf ls @ CR # LF # CR # LF # b)
    = Some (length (join_crlf ls))"
  using assms
proof (induction ls rule: join_crlf.induct)
  case (2 l)
  then have "CR \<notin> set l" by (simp add: line_ok_def printable_not_in)
  then show ?case
    using find_sub_skip [of CR l "[LF, CR, LF]" "CR # LF # CR # LF # b"] by simp
next
  case (3 l m ls)
  let ?rest = "join_crlf (m # ls) @ CR # LF # CR # LF # b"
  from 3 have IH: "find_sub [CR, LF, CR, LF] ?rest = Some (length (join_crlf (m # ls)))" by simp
  from 3 have "line_ok m" by simp
  then obtain c s where start: "join_crlf (m # ls) = c # s" "c \<noteq> CR"
    by (rule join_crlf_start)
  from 3 have "CR \<notin> set l" by (simp add: line_ok_def printable_not_in)
  then have "find_sub [CR, LF, CR, LF] (l @ CR # LF # ?rest)
    = map_option ((+) (length l)) (find_sub [CR, LF, CR, LF] (CR # LF # ?rest))"
    by (rule find_sub_skip)
  also have "find_sub [CR, LF, CR, LF] (CR # LF # ?rest) = Some (2 + length (join_crlf (m # ls)))"
    using IH start by simp
  finally show ?case by simp
qed simp

lemma split_by_join:
  assumes "list_all line_ok ls" "ls \<noteq> []"
  shows "split_by (\<lambda>c. c = LF) (join_crlf ls) = map (\<lambda>l. l @ [CR]) (butlast ls) @ [last ls]"
  using assms
proof (induction ls rule: join_crlf.induct)
  case (2 l)
  then show ?case
    by (simp add: line_ok_def) (rule split_by_none, auto simp: list_all_iff)
next
  case (3 l m ls)
  have "split_by (\<lambda>c. c = LF) ((l @ [CR]) @ LF # join_crlf (m # ls))
    = (l @ [CR]) # split_by (\<lambda>c. c = LF) (join_crlf (m # ls))"
    using 3 by (intro split_by_append) (auto simp: line_ok_def list_all_iff)
  with 3 show ?case by simp
qed simp

lemma lines_join:
  assumes "list_all line_ok ls"
  shows "lines (join_crlf ls) = ls"
proof (cases "ls = []")
  case True
  then show ?thesis by (simp add: lines_def)
next
  case False
  with assms have "last ls \<noteq> []" by (auto simp: line_ok_def list_all_iff)
  moreover have "map strip_cr (map (\<lambda>l. l @ [CR]) (butlast ls)) = butlast ls"
    by (simp add: comp_def strip_cr_def)
  ultimately show ?thesis
    using False by (simp add: lines_def split_by_join [OF assms])
qed

lemma utf8_valid_ascii: "list_all (byte_in 0 127) s \<Longrightarrow> utf8_valid s"
  by (induction s) simp_all

lemma utf8_valid_join:
  assumes "list_all line_ok ls"
  shows "utf8_valid (join_crlf ls)"
proof (rule utf8_valid_ascii)
  have "byte_in 0 127 c" if "printable c" for c
    using that by (simp add: printable_def byte_in_def)
  moreover have "byte_in 0 127 CR" "byte_in 0 127 LF"
    by (simp_all add: byte_in_def CR_def LF_def)
  ultimately show "list_all (byte_in 0 127) (join_crlf ls)"
    using assms by (induction ls rule: join_crlf.induct) (auto simp: line_ok_def list_all_iff)
qed

section \<open>Parsing a response\<close>

lemma split_status_line:
  assumes "version_ok version"
  shows "split_ascii_whitespace (status_line version code reason)
    = version # dec code # split_ascii_whitespace reason"
proof -
  have sp: "is_ascii_whitespace CHR '' ''" by (simp add: is_ascii_whitespace_def)
  have "list_all (\<lambda>c. \<not> is_ascii_whitespace c) version"
    using assms by (auto simp: version_ok_def list_all_iff graphic_def byte_in_def
        is_ascii_whitespace_def)
  with assms sp show ?thesis
    by (simp add: status_line_def version_ok_def split_ascii_whitespace_token
        digits_not_whitespace dec_digits)
qed

lemma parse_u16_dec: "n < 2 ^ 16 \<Longrightarrow> parse_u16 (dec n) = Some (of_nat n)"
  by (simp add: parse_u16_def parse_unsigned_digits dec_digits)

lemma split_once_join:
  assumes "line_ok l"
  shows "split_once CRLF (join_crlf (l # ls)) = (if ls = [] then None else Some (l, join_crlf ls))"
proof -
  have cr: "CR \<notin> set l" using assms by (simp add: line_ok_def printable_not_in)
  show ?thesis
  proof (cases ls)
    case Nil
    with cr show ?thesis by (simp add: split_once_def CRLF_def find_sub_absent)
  next
    case (Cons m ms)
    with cr show ?thesis
      by (simp add: split_once_def CRLF_def find_sub_skip)
  qed
qed

lemma parse_response_text:
  assumes "version_ok version" "code < 2 ^ 16" "list_all printable reason" "list_all header_ok hs"
  shows "parse_response (response_text version code reason hs b) =
    Inr \<lparr>rs_status = of_nat code, rs_headers = join_crlf (map header_line hs), rs_body = b\<rparr>"
proof -
  let ?ls = "status_line version code reason # map header_line hs"
  have ok: "list_all line_ok ?ls"
    using assms status_line_ok header_line_ok by (auto simp: list_all_iff)
  have find: "find_sub (CRLF @ CRLF) (response_text version code reason hs b)
    = Some (length (join_crlf ?ls))"
    using find_sub_join [OF ok, of b] by (simp add: response_text_def CRLF_def)
  have head: "take (length (join_crlf ?ls)) (response_text version code reason hs b) = join_crlf ?ls"
    and body: "drop (length (join_crlf ?ls) + 4) (response_text version code reason hs b) = b"
    by (simp_all add: response_text_def)
  show ?thesis
    unfolding parse_response_def find option.case head body
    using ok utf8_valid_join [OF ok] assms(1,2)
    by (simp add: from_utf8_def lines_join split_status_line parse_u16_dec split_once_join)
qed

lemma split_header_line:
  assumes "header_ok (k, v)"
  shows "split_once '':'' (header_line (k, v)) = Some (k, CHR '' '' # v)" "trim (CHR '' '' # v) = v"
proof -
  show "split_once '':'' (header_line (k, v)) = Some (k, CHR '' '' # v)"
    using assms by (simp add: split_once_char)
  show "trim (CHR '' '' # v) = v"
    using assms trim_graphic [of v] by (simp add: trim_def trim_start_space)
qed

text \<open>A lookup gives the value of the first header whose name is equal up to case.\<close>

lemma header_in_lines:
  assumes "list_all header_ok hs"
  shows "header_in (map header_line hs) name
    = map_option snd (find (\<lambda>(k, v). eq_ignore_ascii_case k name) hs)"
  using assms
proof (induction hs)
  case (Cons h hs)
  obtain k v where h: "h = (k, v)" by fastforce
  with Cons show ?case
    using split_header_line [of k v] by (simp del: header_line.simps)
qed simp

lemma header_text:
  assumes "list_all header_ok hs"
  shows "header \<lparr>rs_status = st, rs_headers = join_crlf (map header_line hs), rs_body = b\<rparr> name
    = map_option snd (find (\<lambda>(k, v). eq_ignore_ascii_case k name) hs)"
proof -
  have "list_all line_ok (map header_line hs)"
    using assms header_line_ok by (auto simp: list_all_iff)
  then show ?thesis
    using header_in_lines [OF assms] by (simp add: header_def lines_join)
qed

text \<open>What an accepted response has, and the cases in which one is refused.\<close>

lemma parse_response_Inr:
  assumes "parse_response buf = Inr r"
  obtains i where "find_sub (CRLF @ CRLF) buf = Some i" "utf8_valid (take i buf)"
    "rs_body r = drop (i + 4) buf"
  using assms
  by (auto simp: parse_response_def from_utf8_def Let_def split: option.splits prod.splits if_splits)

lemma parse_response_Inl: "parse_response buf = Inl e \<Longrightarrow> e = BadResponse"
  by (auto simp: parse_response_def Let_def split: option.splits prod.splits)

section \<open>Properties\<close>

text \<open>C15. A response written in the format of HTTP is parsed to what was written: the status code, the
  body byte for byte, and for every name the value of the first header with that name up to
  case.\<close>

theorem response_roundtrip:
  assumes "version_ok version" "code < 2 ^ 16" "list_all printable reason" "list_all header_ok hs"
  shows "\<exists>resp. parse_response (response_text version code reason hs b) = Inr resp \<and>
    rs_status resp = of_nat code \<and> rs_body resp = b \<and>
    (\<forall>name. header resp name = map_option snd (find (\<lambda>(k, v). eq_ignore_ascii_case k name) hs))"
  using parse_response_text [OF assms, of b] header_text [OF assms(4)] by simp

lemma response_roundtrip_witness:
  "\<exists>resp. parse_response (response_text ''HTTP/1.1'' 200 ''OK''
      [(''Date'', ''Sat, 02 May 2026 15:47:17 GMT''), (''date'', ''never'')] ''{}'') = Inr resp \<and>
    rs_status resp = 200 \<and> rs_body resp = ''{}'' \<and>
    header resp ''DATE'' = Some ''Sat, 02 May 2026 15:47:17 GMT''"
proof -
  let ?hs = "[(''Date'', ''Sat, 02 May 2026 15:47:17 GMT''), (''date'', ''never'')]"
  have "version_ok ''HTTP/1.1''" "list_all printable ''OK''" "list_all header_ok ?hs"
    and find: "find (\<lambda>(k, v). eq_ignore_ascii_case k ''DATE'') ?hs
      = Some (''Date'', ''Sat, 02 May 2026 15:47:17 GMT'')"
    by code_simp+
  from response_roundtrip [OF this(1) _ this(2,3), of 200 "''{}''"] find show ?thesis by auto
qed

end
