(* ===== verification/Led.thy ===== *)
theory Led
  imports Prelude
begin

text \<open>
  \<open>src/led.rs\<close>: the patterns of the status LED, the colours they render to, the WS2812
  frame of a colour and the animation task. The RMT driver is not part of the repository:
  \<open>PulseCode\<close> records which of its constructors the code calls with which arguments, a
  \<open>Write\<close> action stands for \<open>tx.transmit\<close> and a \<open>Delay\<close> for \<open>Timer::after\<close>.
  \<open>breathe_pct\<close> divides by the period and by its half and would panic for a period below
  2; its two callers pass 667 and 3000.
\<close>

definition LED_BRIGHTNESS_CAP :: u8 where
  "LED_BRIGHTNESS_CAP = 38"

definition FRAME_PERIOD_MS :: u64 where
  "FRAME_PERIOD_MS = 33"

definition ACTIVITY_FLASH_MS :: u64 where
  "ACTIVITY_FLASH_MS = 100"

datatype LedPattern =
    SelfTest | Booting | Connecting | Healthy | Activity | Warning | Disconnected | Panic

record Color =
  col_r :: u8
  col_g :: u8
  col_b :: u8

definition OFF :: Color where "OFF = \<lparr>col_r = 0, col_g = 0, col_b = 0\<rparr>"
definition RED :: Color where "RED = \<lparr>col_r = LED_BRIGHTNESS_CAP, col_g = 0, col_b = 0\<rparr>"
definition GREEN :: Color where "GREEN = \<lparr>col_r = 0, col_g = LED_BRIGHTNESS_CAP, col_b = 0\<rparr>"
definition BLUE :: Color where "BLUE = \<lparr>col_r = 0, col_g = 0, col_b = LED_BRIGHTNESS_CAP\<rparr>"

definition WHITE :: Color where
  "WHITE = \<lparr>col_r = LED_BRIGHTNESS_CAP, col_g = LED_BRIGHTNESS_CAP, col_b = LED_BRIGHTNESS_CAP\<rparr>"

definition YELLOW :: Color where
  "YELLOW = \<lparr>col_r = LED_BRIGHTNESS_CAP, col_g = LED_BRIGHTNESS_CAP, col_b = 0\<rparr>"

section \<open>Rendering\<close>

definition breathe_pct :: "u64 \<Rightarrow> u64 \<Rightarrow> u8" where
  "breathe_pct elapsed_ms period_ms =
     (let t = (ucast (elapsed_ms mod period_ms) :: u32);
          half = (ucast (period_ms div 2) :: u32);
          tri = (if t < half then t else saturating_sub (ucast period_ms) t);
          n = min (saturating_mul tri 255 div half) 255;
          n_sq = n * n div 255;
          n_cu = n_sq * n div 255;
          eased = min (saturating_sub (3 * n_sq) (2 * n_cu)) 255
      in ucast (5 + eased * 20 div 255))"

definition breathe :: "u64 \<Rightarrow> u64 \<Rightarrow> u8 \<Rightarrow> u8 \<Rightarrow> u8 \<Rightarrow> Color" where
  "breathe elapsed_ms period_ms r_cap g_cap b_cap =
     (let pct = breathe_pct elapsed_ms period_ms;
          scale = (\<lambda>c :: u8. (ucast ((ucast c :: u32) * ucast pct div 100) :: u8))
      in \<lparr>col_r = scale r_cap, col_g = scale g_cap, col_b = scale b_cap\<rparr>)"

fun render_steady :: "LedPattern \<Rightarrow> u64 \<Rightarrow> Color" where
  "render_steady Booting elapsed_ms = WHITE"
| "render_steady Connecting elapsed_ms = breathe elapsed_ms 667 0 0 LED_BRIGHTNESS_CAP"
| "render_steady Healthy elapsed_ms = breathe elapsed_ms 3000 0 LED_BRIGHTNESS_CAP 0"
| "render_steady _ elapsed_ms = OFF"

section \<open>The WS2812 frame\<close>

definition T0H :: u16 where "T0H = 32"
definition T0L :: u16 where "T0L = 68"
definition T1H :: u16 where "T1H = 64"
definition T1L :: u16 where "T1L = 36"

datatype Level = Low | High
datatype PulseCode = PulseCode Level u16 Level u16 | EndMarker

definition grb_word :: "Color \<Rightarrow> u32" where
  "grb_word c = push_bit 16 (ucast (col_g c)) OR push_bit 8 (ucast (col_r c)) OR ucast (col_b c)"

definition pulse_at :: "u32 \<Rightarrow> nat \<Rightarrow> PulseCode" where
  "pulse_at grb i =
     (if drop_bit (23 - i) grb AND 1 = 1 then PulseCode High T1H Low T1L
      else PulseCode High T0H Low T0L)"

text \<open>The loop over the first 24 slots of a buffer of 25 end markers.\<close>

definition write_frame :: "Color \<Rightarrow> PulseCode list" where
  "write_frame c =
     (let grb = grb_word c
      in fold (\<lambda>i buf. buf[i := pulse_at grb i]) [0 ..< 24] (replicate 25 EndMarker))"

section \<open>The animation task\<close>

datatype led_action = Write Color | Delay u64

record led_state =
  steady :: LedPattern
  steady_started :: u64

datatype led_event = FrameTimer | Received LedPattern

definition self_test :: "led_action list" where
  "self_test = concat (map (\<lambda>color. [Write color, Delay 200]) [RED, GREEN, BLUE, OFF])"

text \<open>
  The start of the task: nothing without the RMT and its channel, else the self-test and a
  first frame. \<open>now\<close> is the reading of \<open>Instant::now()\<close> behind the self-test.
\<close>

definition led_start :: "bool \<Rightarrow> bool \<Rightarrow> u64 \<Rightarrow> (led_action list \<times> led_state) option" where
  "led_start rmt_ok channel_ok now =
     (if \<not> rmt_ok then None else if \<not> channel_ok then None
      else let s = \<lparr>steady = Booting, steady_started = now\<rparr>
           in Some (self_test @ [Write (render_steady (steady s) 0)], s))"

text \<open>
  One iteration of the loop. Every branch reads the clock at most once, after its delays;
  \<open>now\<close> is that reading and \<open>as_millis\<close> the conversion of a duration.
\<close>

fun led_step ::
    "(u64 \<Rightarrow> u64) \<Rightarrow> u64 \<Rightarrow> led_event \<Rightarrow> led_state \<Rightarrow> led_action list \<times> led_state" where
  "led_step as_millis now FrameTimer s =
     (let elapsed = as_millis (now - steady_started s)
      in ([Write (render_steady (steady s) elapsed)], s))"
| "led_step as_millis now (Received Activity) s =
     (let elapsed = as_millis (now - steady_started s)
      in ([Write YELLOW, Delay ACTIVITY_FLASH_MS, Write (render_steady (steady s) elapsed)], s))"
| "led_step as_millis now (Received SelfTest) s =
     (self_test, s\<lparr>steady := Booting, steady_started := now\<rparr>)"
| "led_step as_millis now (Received other) s =
     ([], s\<lparr>steady := other, steady_started := now\<rparr>)"

fun led_run ::
    "(u64 \<Rightarrow> u64) \<Rightarrow> (led_event \<times> u64) list \<Rightarrow> led_state \<Rightarrow> led_action list \<times> led_state" where
  "led_run as_millis [] s = ([], s)"
| "led_run as_millis ((ev, now) # evs) s =
     (let (as, s) = led_step as_millis now ev s; (as', s) = led_run as_millis evs s
      in (as @ as', s))"

section \<open>Brightness\<close>

definition dim :: "Color \<Rightarrow> bool" where
  "dim c \<longleftrightarrow> col_r c \<le> LED_BRIGHTNESS_CAP \<and> col_g c \<le> LED_BRIGHTNESS_CAP \<and> col_b c \<le> LED_BRIGHTNESS_CAP"

lemma breathe_pct_bounds: "5 \<le> unat (breathe_pct t p)" "unat (breathe_pct t p) \<le> 25"
proof -
  define eased :: u32 where "eased =
    (let t = (ucast (t mod p) :: u32);
         half = (ucast (p div 2) :: u32);
         tri = (if t < half then t else saturating_sub (ucast p) t);
         n = min (saturating_mul tri 255 div half) 255;
         n_sq = n * n div 255;
         n_cu = n_sq * n div 255
     in min (saturating_sub (3 * n_sq) (2 * n_cu)) 255)"
  have "eased \<le> 255" by (simp add: eased_def Let_def)
  then have e: "unat eased \<le> 255" by (simp add: word_le_nat_alt)
  then have "unat (eased * 20) = unat eased * 20" by (subst unat_mult_small) simp_all
  then have "unat (eased * 20 div 255) = unat eased * 20 div 255" by (simp add: unat_div)
  moreover have "unat eased * 20 div 255 \<le> 20" using e by simp
  ultimately have "unat (5 + eased * 20 div 255) = 5 + unat eased * 20 div 255"
    by (subst unat_add_small) simp_all
  moreover have "breathe_pct t p = ucast (5 + eased * 20 div 255)"
    by (simp add: breathe_pct_def eased_def Let_def)
  ultimately have "unat (breathe_pct t p) = 5 + unat eased * 20 div 255"
    using \<open>unat eased * 20 div 255 \<le> 20\<close> by (simp add: unat_ucast_small)
  with \<open>unat eased * 20 div 255 \<le> 20\<close>
  show "5 \<le> unat (breathe_pct t p)" "unat (breathe_pct t p) \<le> 25" by simp_all
qed

text \<open>A scaled channel is at most a quarter of its cap.\<close>

lemma unat_scale:
  "unat (ucast ((ucast (c :: u8) :: u32) * ucast (breathe_pct t p) div 100) :: u8)
    = unat c * unat (breathe_pct t p) div 100"
proof -
  note le = breathe_pct_bounds(2) [of t p]
  have c: "unat c < 256" using unat_less [of c] by simp
  have mult: "unat c * unat (breathe_pct t p) \<le> 255 * 25"
    using c le by (intro mult_le_mono) simp_all
  have "unat ((ucast c :: u32) * ucast (breathe_pct t p)) = unat c * unat (breathe_pct t p)"
    using mult c le by (subst unat_mult_small) (simp_all add: unat_ucast_small)
  then have d: "unat ((ucast c :: u32) * ucast (breathe_pct t p) div 100)
      = unat c * unat (breathe_pct t p) div 100"
    by (simp add: unat_div)
  have "unat c * unat (breathe_pct t p) div 100 < 256" using mult by simp
  with d show ?thesis by (simp add: unat_ucast_small)
qed

lemma unat_breathe:
  "unat (col_r (breathe t p r_cap g_cap b_cap)) = unat r_cap * unat (breathe_pct t p) div 100"
  "unat (col_g (breathe t p r_cap g_cap b_cap)) = unat g_cap * unat (breathe_pct t p) div 100"
  "unat (col_b (breathe t p r_cap g_cap b_cap)) = unat b_cap * unat (breathe_pct t p) div 100"
  unfolding breathe_def Let_def Color.select_convs by (rule unat_scale)+

lemma scale_le: "unat c * unat (breathe_pct t p) div 100 \<le> unat c"
proof -
  have "unat c * unat (breathe_pct t p) \<le> unat c * 100"
    using breathe_pct_bounds(2) [of t p] by simp
  then show ?thesis using div_le_mono [of _ "unat c * 100" 100] by simp
qed

lemma dim_breathe:
  "r_cap \<le> LED_BRIGHTNESS_CAP \<Longrightarrow> g_cap \<le> LED_BRIGHTNESS_CAP \<Longrightarrow> b_cap \<le> LED_BRIGHTNESS_CAP \<Longrightarrow>
    dim (breathe t p r_cap g_cap b_cap)"
  unfolding dim_def word_le_nat_alt unat_breathe using scale_le order_trans by blast

lemma dim_render: "dim (render_steady p t)"
  by (cases p) (simp_all add: dim_breathe, simp_all add: OFF_def WHITE_def dim_def)

fun action_dim :: "led_action \<Rightarrow> bool" where
  "action_dim (Write c) = dim c"
| "action_dim (Delay ms) = True"

lemma self_test_dim: "list_all action_dim self_test"
  by (simp add: self_test_def dim_def RED_def GREEN_def BLUE_def OFF_def)

lemma led_step_dim: "led_step as_millis now ev s = (as, s') \<Longrightarrow> list_all action_dim as"
  by (cases "(as_millis, now, ev, s)" rule: led_step.cases)
    (auto simp: Let_def dim_render self_test_dim, simp_all add: dim_def YELLOW_def)

lemma led_run_dim: "led_run as_millis evs s = (as, s') \<Longrightarrow> list_all action_dim as"
proof (induction evs arbitrary: s as)
  case (Cons e evs)
  obtain ev now where e: "e = (ev, now)" by fastforce
  with Cons show ?case
    by (auto simp: Let_def split: prod.splits dest: led_step_dim)
qed simp

section \<open>The steady pattern\<close>

text \<open>The pattern a received signal makes steady; \<open>Activity\<close> is an overlay.\<close>

fun steady_of :: "led_event \<Rightarrow> LedPattern option" where
  "steady_of FrameTimer = None"
| "steady_of (Received p) =
     (case p of Activity \<Rightarrow> None | SelfTest \<Rightarrow> Some Booting | _ \<Rightarrow> Some p)"

lemma led_step_steady:
  "steady (snd (led_step as_millis now ev s)) = (case steady_of ev of None \<Rightarrow> steady s | Some p \<Rightarrow> p)"
  by (cases "(as_millis, now, ev, s)" rule: led_step.cases) (simp_all add: Let_def)

lemma led_run_steady:
  "steady (snd (led_run as_millis evs s))
    = last (steady s # map the (filter (\<lambda>p. p \<noteq> None) (map (steady_of \<circ> fst) evs)))"
proof (induction evs arbitrary: s)
  case (Cons e evs)
  obtain ev now where e: "e = (ev, now)" by fastforce
  show ?case
    using Cons.IH [of "snd (led_step as_millis now ev s)"]
    by (cases "steady_of ev") (simp_all add: e Let_def led_step_steady split_def)
qed simp

section \<open>Framing\<close>

lemma fold_update_prefix:
  "n \<le> length buf \<Longrightarrow>
    fold (\<lambda>i buf. buf[i := f i]) [0 ..< n] buf = map f [0 ..< n] @ drop n buf"
proof (induction n)
  case (Suc n)
  then show ?case
    by (simp add: list_update_append Cons_nth_drop_Suc [symmetric])
qed simp

lemma write_frame_eq: "write_frame c = map (pulse_at (grb_word c)) [0 ..< 24] @ [EndMarker]"
  unfolding write_frame_def Let_def by (subst fold_update_prefix) simp_all

lemma pulse_at_bit:
  "i < 24 \<Longrightarrow> pulse_at w i =
    (if bit w (23 - i) then PulseCode High T1H Low T1L else PulseCode High T0H Low T0L)"
  by (simp add: pulse_at_def and_one_eq bit_iff_odd_drop_bit odd_iff_mod_2_eq_one)

text \<open>
  The receiver: a pulse that is high for more than 0.6 microseconds (48 ticks) is a one;
  24 bits, green, red and blue, each with its highest bit first.
\<close>

fun pulse_bit :: "PulseCode \<Rightarrow> bool option" where
  "pulse_bit (PulseCode High h Low l) = Some (48 < h)"
| "pulse_bit _ = None"

definition bits_value :: "bool list \<Rightarrow> nat" where
  "bits_value bs = foldl (\<lambda>a x. 2 * a + (if x then 1 else 0)) 0 bs"

definition ws2812_decode :: "PulseCode list \<Rightarrow> (nat \<times> nat \<times> nat) option" where
  "ws2812_decode ps =
     (let bits = map pulse_bit (butlast ps) in
      if length ps = 25 \<and> last ps = EndMarker \<and> None \<notin> set bits
      then let bs = map the bits in
        Some (bits_value (take 8 bs), bits_value (take 8 (drop 8 bs)), bits_value (drop 16 bs))
      else None)"


lemma bits_value_rev: "bits_value (rev bs) = horner_sum of_bool 2 bs"
proof (induction bs)
  case (Cons x bs)
  have "bits_value (bs' @ [x]) = 2 * bits_value bs' + (if x then 1 else 0)" for bs'
    by (simp add: bits_value_def)
  with Cons show ?case by (simp add: mult.commute)
qed (simp add: bits_value_def)

lemma bits_value_byte:
  "bits_value (map (\<lambda>i. bit w (7 - i)) [0 ..< 8]) = unat (w :: u8)"
proof -
  have "map (\<lambda>i. bit w (7 - i)) [0 ..< 8] = rev (map (bit (unat w)) [0 ..< 8])"
    by (simp add: upt_conv_Cons bit_unsigned_iff numeral_eq_Suc)
  moreover have "bits_value (rev (map (bit (unat w)) [0 ..< 8])) = take_bit 8 (unat w)"
    unfolding bits_value_rev by (rule horner_sum_bit_eq_take_bit)
  ultimately show ?thesis
    using unat_less [of w] by (simp add: take_bit_nat_eq_self)
qed

lemma bit_grb:
  "i < 8 \<Longrightarrow> bit (grb_word c) (23 - i) = bit (col_g c) (7 - i)"
  "i < 8 \<Longrightarrow> bit (grb_word c) (15 - i) = bit (col_r c) (7 - i)"
  "i < 8 \<Longrightarrow> bit (grb_word c) (7 - i) = bit (col_b c) (7 - i)"
  by (auto simp: grb_word_def bit_simps dest: bit_imp_le_length)

lemma ws2812_decode_bits:
  assumes "map pulse_bit ps = map Some bs" "length bs = 24"
  shows "ws2812_decode (ps @ [EndMarker])
    = Some (bits_value (take 8 bs), bits_value (take 8 (drop 8 bs)), bits_value (drop 16 bs))"
proof -
  have "length ps = 24" using assms map_eq_imp_length_eq by fastforce
  moreover have "map (the \<circ> Some) bs = bs" by (simp add: comp_def)
  ultimately show ?thesis
    using assms by (auto simp: ws2812_decode_def Let_def)
qed

lemma decode_write_frame:
  "ws2812_decode (write_frame c) = Some (unat (col_g c), unat (col_r c), unat (col_b c))"
proof -
  let ?f = "\<lambda>i. bit (grb_word c) (23 - i)"
  have bits: "map pulse_bit (map (pulse_at (grb_word c)) [0 ..< 24]) = map Some (map ?f [0 ..< 24])"
    by (simp add: pulse_at_bit T0H_def T1H_def)
  have "[0 ..< 24] = [0 ..< 8] @ map ((+) 8) [0 ..< 8] @ map ((+) 16) [0 ..< 8 :: nat]"
    by (simp add: upt_conv_Cons)
  then have "map ?f [0 ..< 24] = map ?f [0 ..< 8] @ map (?f \<circ> (+) 8) [0 ..< 8] @ map (?f \<circ> (+) 16) [0 ..< 8]"
    by simp
  also have "\<dots> = map (\<lambda>i. bit (col_g c) (7 - i)) [0 ..< 8] @
    map (\<lambda>i. bit (col_r c) (7 - i)) [0 ..< 8] @ map (\<lambda>i. bit (col_b c) (7 - i)) [0 ..< 8]"
    by (auto simp: bit_grb)
  finally show ?thesis
    unfolding write_frame_eq by (subst ws2812_decode_bits [OF bits]) (simp_all add: bits_value_byte)
qed

section \<open>Properties\<close>

text \<open>C34. Brightness: from its start and through every sequence of timer ticks and signals, at any times,
  the task writes only colours whose three channels are at most \<open>LED_BRIGHTNESS_CAP\<close>.\<close>

theorem led_never_above_cap:
  assumes "led_start rmt_ok channel_ok now = Some (as, s)"
  shows "list_all action_dim (as @ fst (led_run as_millis evs s))"
proof -
  have "list_all action_dim as"
    using assms dim_render [of Booting 0]
    by (auto simp: led_start_def Let_def self_test_dim split: if_splits)
  moreover have "list_all action_dim (fst (led_run as_millis evs s))"
    using led_run_dim [of as_millis evs s] by (metis prod.collapse)
  ultimately show ?thesis by simp
qed

lemma led_never_above_cap_witness:
  "list_all action_dim (self_test @ [Write WHITE] @ fst (led_run (\<lambda>d. d div 1000)
     [(Received Healthy, 5), (FrameTimer, 900000), (Received Activity, 2000000)]
     \<lparr>steady = Booting, steady_started = 4\<rparr>))"
proof -
  have "led_start True True 4 = Some (self_test @ [Write WHITE], \<lparr>steady = Booting, steady_started = 4\<rparr>)"
    by (simp add: led_start_def)
  from led_never_above_cap [OF this] show ?thesis by (simp only: append_assoc)
qed

text \<open>C35. The steady pattern after any run is the last one signalled, where \<open>Activity\<close> leaves it alone
  and \<open>SelfTest\<close> counts as \<open>Booting\<close>: a flash never loses the state of the node.\<close>

theorem led_steady_pattern:
  "steady (snd (led_run as_millis evs s))
    = last (steady s # map the (filter (\<lambda>p. p \<noteq> None) (map (steady_of \<circ> fst) evs)))"
  by (rule led_run_steady)

text \<open>C36. A frame is 24 pulses and the end marker, every pulse lasts 100 ticks (1.25 microseconds), and
  a receiver that reads the bits off the pulses gets back the three channels of the colour.\<close>

theorem ws2812_roundtrip:
  "length (write_frame c) = 25 \<and>
   ws2812_decode (write_frame c) = Some (unat (col_g c), unat (col_r c), unat (col_b c)) \<and>
   list_all (\<lambda>q. \<exists>h l. q = PulseCode High h Low l \<and> h + l = 100) (butlast (write_frame c))"
proof -
  have "\<exists>h l. pulse_at w i = PulseCode High h Low l \<and> h + l = 100" for w i
    by (simp add: pulse_at_def T0H_def T0L_def T1H_def T1L_def)
  then show ?thesis
    using decode_write_frame [of c] by (auto simp: write_frame_eq list_all_iff)
qed

text \<open>The breathing stays between 5 and 25 percent at every time, starts at 5 percent and repeats
  with its period, for every period from 2 ms on that fits 32 bits (a shorter one would divide
  by zero; the callers pass 667 and 3000).\<close>

lemma breathe_pct_range:
  assumes "2 \<le> p" "p < 2 ^ 32"
  shows "5 \<le> unat (breathe_pct t p) \<and> unat (breathe_pct t p) \<le> 25 \<and> breathe_pct 0 p = 5 \<and>
    breathe_pct (t mod p) p = breathe_pct t p"
proof -
  have "unat p < 2 ^ 32" "2 \<le> unat p"
    using assms by (simp_all add: word_less_nat_alt word_le_nat_alt)
  then have "unat (ucast (p div 2) :: u32) = unat p div 2"
    by (subst unat_ucast_small) (simp_all add: unat_div)
  with \<open>2 \<le> unat p\<close> have "0 < (ucast (p div 2) :: u32)"
    by (simp add: word_less_nat_alt)
  then have "breathe_pct 0 p = 5"
    by (simp add: breathe_pct_def Let_def saturating_mul_def)
  moreover have "unat (t mod p mod p) = unat (t mod p)" by (simp add: unat_mod)
  then have "t mod p mod p = t mod p" by (rule unsigned_word_eqI)
  then have "breathe_pct (t mod p) p = breathe_pct t p"
    unfolding breathe_pct_def by simp
  ultimately show ?thesis using breathe_pct_bounds [of t p] by simp
qed

end
