(* ===== verification/Wifi.thy ===== *)
theory Wifi
  imports Rust_Text
begin

text \<open>
  \<open>src/net/wifi.rs\<close>: the statics of the Wi-Fi link and the connection task that updates
  them. The driver is not part of the repository: \<open>wifi_event\<close> is what one round of
  \<open>connect_async\<close> and \<open>wait_for_disconnect_async\<close> reports, with the \<open>Debug\<close> texts the
  task logs.
\<close>

type_synonym bssid = "u8 \<times> u8 \<times> u8 \<times> u8 \<times> u8 \<times> u8"

record wifi_statics =
  WIFI_BSSID :: u64
  WIFI_ASSOCIATIONS_TOTAL :: u32

definition wifi_init :: wifi_statics where
  "wifi_init = \<lparr>WIFI_BSSID = 0, WIFI_ASSOCIATIONS_TOTAL = 0\<rparr>"

definition bssid_to_u64 :: "bssid \<Rightarrow> u64" where
  "bssid_to_u64 bs = (case bs of (b0, b1, b2, b3, b4, b5) \<Rightarrow>
     push_bit 40 (ucast b0) OR push_bit 32 (ucast b1) OR push_bit 24 (ucast b2)
     OR push_bit 16 (ucast b3) OR push_bit 8 (ucast b4) OR ucast b5)"

text \<open>What the driver and the timer answer to the calls the task awaits, with the \<open>Debug\<close> texts.\<close>

datatype wifi_event =
    Associated bssid string
  | ConnectFailed string
  | Disconnected string
  | PauseOver

text \<open>
  The call the task is waiting in: \<open>connect_async\<close>, \<open>wait_for_disconnect_async\<close>, or the
  pause of 5 s at the end of the loop.
\<close>

datatype wifi_phase = Knocking | Linked | Pausing

definition knock :: "string \<Rightarrow> log_line" where
  "knock ssid = (Info, ''wifi: knocking on '' @ [CHR 0x27] @ ssid @ [CHR 0x27] @ ''...'')"

text \<open>What an answer does; \<open>None\<close> where the call the task is waiting in cannot answer so.\<close>

fun connection_step ::
    "string \<Rightarrow> wifi_event \<Rightarrow> wifi_phase \<Rightarrow> wifi_statics
      \<Rightarrow> (wifi_phase \<times> wifi_statics \<times> log_line list) option" where
  "connection_step ssid (Associated bs i) Knocking w =
     Some (Linked, w\<lparr>WIFI_BSSID := bssid_to_u64 bs,
                     WIFI_ASSOCIATIONS_TOTAL := WIFI_ASSOCIATIONS_TOTAL w + 1\<rparr>,
           [(Info, ''wifi: associated ('' @ i @ ''); we have a layer 2'')])"
| "connection_step ssid (ConnectFailed e) Knocking w =
     Some (Pausing, w, [(Warn, ''wifi: connect failed: '' @ e)])"
| "connection_step ssid (Disconnected dc) Linked w =
     Some (Pausing, w, [(Warn, ''wifi: disconnected ('' @ dc @ ''); back to the void'')])"
| "connection_step ssid PauseOver Pausing w = Some (Knocking, w, [knock ssid])"
| "connection_step ssid _ _ w = None"

text \<open>The task from its start over the answers it gets; it stops at an answer it cannot get.\<close>

fun connection_run ::
    "string \<Rightarrow> wifi_event list \<Rightarrow> wifi_phase \<Rightarrow> wifi_statics
      \<Rightarrow> (wifi_phase \<times> wifi_statics \<times> log_line list) option" where
  "connection_run ssid [] ph w = Some (ph, w, [])"
| "connection_run ssid (ev # evs) ph w = do {
     (ph, w, ls) \<leftarrow> connection_step ssid ev ph w;
     (ph, w, ls') \<leftarrow> connection_run ssid evs ph w;
     Some (ph, w, ls @ ls')
   }"

definition connection_task ::
    "string \<Rightarrow> wifi_event list \<Rightarrow> (wifi_phase \<times> wifi_statics \<times> log_line list) option" where
  "connection_task ssid evs = do {
     (ph, w, ls) \<leftarrow> connection_run ssid evs Knocking wifi_init;
     Some (ph, w, knock ssid # ls)
   }"

section \<open>The folded BSSID\<close>

lemma drop_bssid:
  "(ucast (drop_bit 40 (bssid_to_u64 (b0, b1, b2, b3, b4, b5))) :: u8) = b0"
  "(ucast (drop_bit 32 (bssid_to_u64 (b0, b1, b2, b3, b4, b5))) :: u8) = b1"
  "(ucast (drop_bit 24 (bssid_to_u64 (b0, b1, b2, b3, b4, b5))) :: u8) = b2"
  "(ucast (drop_bit 16 (bssid_to_u64 (b0, b1, b2, b3, b4, b5))) :: u8) = b3"
  "(ucast (drop_bit 8 (bssid_to_u64 (b0, b1, b2, b3, b4, b5))) :: u8) = b4"
  "(ucast (bssid_to_u64 (b0, b1, b2, b3, b4, b5)) :: u8) = b5"
  by (rule bit_word_eqI;
      auto simp: bssid_to_u64_def bit_simps dest: bit_imp_le_length; fail)+

lemma bssid_to_u64_inj: "bssid_to_u64 x = bssid_to_u64 y \<longleftrightarrow> x = y"
proof
  assume eq: "bssid_to_u64 x = bssid_to_u64 y"
  obtain x0 x1 x2 x3 x4 x5 where x: "x = (x0, x1, x2, x3, x4, x5)" by (cases x)
  obtain y0 y1 y2 y3 y4 y5 where y: "y = (y0, y1, y2, y3, y4, y5)" by (cases y)
  show "x = y"
    using drop_bssid [of x0 x1 x2 x3 x4 x5] drop_bssid [of y0 y1 y2 y3 y4 y5] eq
    unfolding x y by simp
qed simp

lemma bssid_to_u64_zero: "bssid_to_u64 x = 0 \<longleftrightarrow> x = (0, 0, 0, 0, 0, 0)"
proof -
  have "bssid_to_u64 (0, 0, 0, 0, 0, 0) = 0" by (simp add: bssid_to_u64_def)
  then show ?thesis using bssid_to_u64_inj [of x "(0, 0, 0, 0, 0, 0)"] by simp
qed

lemma bit_bssid_high: "48 \<le> n \<Longrightarrow> \<not> bit (bssid_to_u64 x) n"
  by (cases x) (auto simp: bssid_to_u64_def bit_simps dest: bit_imp_le_length)

section \<open>The statics over a run\<close>

fun associations :: "wifi_event list \<Rightarrow> bssid list" where
  "associations [] = []"
| "associations (Associated bs i # evs) = bs # associations evs"
| "associations (ConnectFailed e # evs) = associations evs"
| "associations (Disconnected dc # evs) = associations evs"
| "associations (PauseOver # evs) = associations evs"

fun disconnections :: "wifi_event list \<Rightarrow> nat" where
  "disconnections [] = 0"
| "disconnections (Disconnected dc # evs) = Suc (disconnections evs)"
| "disconnections (ev # evs) = disconnections evs"

fun_cases connection_cases [elim!]: "connection_step ssid ev ph w = Some r"

definition linked :: "wifi_phase \<Rightarrow> nat" where
  "linked ph = (if ph = Linked then 1 else 0)"

lemma connection_run_Cons:
  assumes "connection_run ssid (ev # evs) ph w = Some (ph', w', ls)"
  obtains ph1 w1 l1 l2 where "connection_step ssid ev ph w = Some (ph1, w1, l1)"
    "connection_run ssid evs ph1 w1 = Some (ph', w', l2)" "ls = l1 @ l2"
  using assms by (auto split: Option.bind_splits)

lemma connection_run_statics:
  assumes "connection_run ssid evs ph w = Some (ph', w', ls)"
  shows "WIFI_ASSOCIATIONS_TOTAL w' = WIFI_ASSOCIATIONS_TOTAL w + of_nat (length (associations evs)) \<and>
    WIFI_BSSID w' = last (WIFI_BSSID w # map bssid_to_u64 (associations evs))"
  using assms
proof (induction evs arbitrary: ph w ls)
  case (Cons ev evs)
  from Cons.prems show ?case
    by (rule connection_run_Cons) (use Cons.IH in \<open>fastforce\<close>)
qed simp

lemma connection_run_linked:
  assumes "connection_run ssid evs ph w = Some (ph', w', ls)"
  shows "linked ph + length (associations evs) = linked ph' + disconnections evs"
  using assms
proof (induction evs arbitrary: ph w ls)
  case (Cons ev evs)
  from Cons.prems show ?case
    by (rule connection_run_Cons) (use Cons.IH in \<open>fastforce simp: linked_def\<close>)
qed simp

section \<open>Properties\<close>

text \<open>The folded BSSID identifies the access point: two are equal exactly for equal addresses, only
  the all-zero address gives the value 0 that stands for no association, and 48 bits are used.\<close>

lemma bssid_fold_faithful:
  "(bssid_to_u64 x = bssid_to_u64 y \<longleftrightarrow> x = y) \<and> (bssid_to_u64 x = 0 \<longleftrightarrow> x = (0, 0, 0, 0, 0, 0)) \<and>
   unat (bssid_to_u64 x) < 2 ^ 48"
proof -
  have "take_bit 48 (bssid_to_u64 x) = bssid_to_u64 x"
    by (rule bit_word_eqI) (auto simp: bit_take_bit_iff bit_bssid_high not_less intro: ccontr)
  then have "unat (bssid_to_u64 x) = take_bit 48 (unat (bssid_to_u64 x))"
    by (metis unsigned_take_bit_eq)
  also have "\<dots> < 2 ^ 48" by (rule take_bit_nat_less_exp)
  finally show ?thesis using bssid_to_u64_inj bssid_to_u64_zero by simp
qed

text \<open>C37. After any run of the connection task the static counter is the number of associations (on 32
  bits) and the static BSSID that of the last one. The task is linked exactly when it has
  associated once more than it was disconnected, so a lost link is always noticed before the
  next attempt; failed attempts change neither static.\<close>

theorem connection_task_statics:
  assumes "connection_task ssid evs = Some (ph, w, ls)"
  shows "WIFI_ASSOCIATIONS_TOTAL w = of_nat (length (associations evs)) \<and>
    WIFI_BSSID w = last (0 # map bssid_to_u64 (associations evs)) \<and>
    length (associations evs) = disconnections evs + (if ph = Linked then 1 else 0)"
proof -
  obtain l where "connection_run ssid evs Knocking wifi_init = Some (ph, w, l)"
    using assms by (auto simp: connection_task_def split: Option.bind_splits)
  from connection_run_statics [OF this] connection_run_linked [OF this] show ?thesis
    by (simp add: wifi_init_def linked_def)
qed

lemma connection_task_statics_witness:
  "case connection_task ''void'' [ConnectFailed ''Timeout'', PauseOver, Associated (0, 17, 34, 51, 68, 85) ''ap'',
     Disconnected ''BeaconTimeout'', PauseOver, Associated (0, 17, 34, 51, 68, 86) ''ap''] of
     Some (ph, w, ls) \<Rightarrow> ph = Linked \<and> WIFI_ASSOCIATIONS_TOTAL w = 2 \<and> length ls = 7
   | None \<Rightarrow> False"
proof -
  let ?evs = "[ConnectFailed ''Timeout'', PauseOver, Associated (0, 17, 34, 51, 68, 85) ''ap'',
     Disconnected ''BeaconTimeout'', PauseOver, Associated (0, 17, 34, 51, 68, 86) ''ap'']"
  obtain w ls where run: "connection_task ''void'' ?evs = Some (Linked, w, ls)" "length ls = 7"
    by (simp add: connection_task_def)
  from connection_task_statics [OF run(1)] run(2) show ?thesis by (simp add: run(1))
qed

end
