(* ===== verification/Platform.thy ===== *)
theory Platform
  imports ApiPath Wallclock Http Led Wifi
begin

text \<open>
  What the tasks of the firmware share, and what they call outside the repository.

  \<open>platform\<close> collects the code that is not under \<open>src/\<close>: the clock of \<open>embassy-time\<close>, the
  allocator, the string buffers of \<open>heapless\<close>, the TCP and TLS stack and the random numbers of
  the chip, as functions on a state \<open>'w\<close> of the outside world, and the values the build
  reads from its environment.

  \<open>sys\<close> collects the statics of the firmware: the anchored clock (\<open>wallclock.rs\<close>),
  \<open>RENEWAL_COUNT\<close> (\<open>reconcilers/lease.rs\<close>), the Wi-Fi statics (\<open>net/wifi.rs\<close>), the LED
  signal (\<open>led.rs\<close>), the log, and two things the code does not keep: the list \<open>sent\<close> of
  the requests handed to the client, and the state of the world.
\<close>

record request_line =
  rq_method :: string
  rq_content_type :: string
  rq_path :: string
  rq_body :: "bytes option"

text \<open>
  What a TCP socket is made with: its buffers and its time-out in seconds. \<open>tls_open\<close> gets the lengths
  of the two buffers for TLS records.
\<close>

record socket =
  rx_len :: nat
  tx_len :: nat
  timeout_secs :: u64

record 'w platform =
  env :: build_env
  push :: push_str
  instant_millis :: "'w \<Rightarrow> u64 \<times> 'w"
  instant_secs :: "'w \<Rightarrow> u64 \<times> 'w"
  timer_after :: "u64 \<Rightarrow> 'w \<Rightarrow> 'w"
  heap_free :: "'w \<Rightarrow> usize \<times> 'w"
  rng_random :: "'w \<Rightarrow> u32 \<times> 'w"
  tcp_connect :: "socket \<Rightarrow> Ipv4Addr \<Rightarrow> u16 \<Rightarrow> 'w \<Rightarrow> ConnectError option \<times> 'w"
  tls_open :: "nat \<Rightarrow> nat \<Rightarrow> string \<Rightarrow> u8 list \<Rightarrow> 'w \<Rightarrow> TlsError option \<times> 'w"
  tls_write_all :: "bytes \<Rightarrow> 'w \<Rightarrow> TlsError option \<times> 'w"
  tls_flush :: "'w \<Rightarrow> TlsError option \<times> 'w"
  tls_read :: "nat \<Rightarrow> 'w \<Rightarrow> (TlsError + bytes) \<times> 'w"
  tls_close :: "'w \<Rightarrow> 'w"

record 'w sys =
  clock :: wall_clock
  RENEWAL_COUNT :: u32
  wifi :: wifi_statics
  LED_SIGNAL :: "LedPattern option"
  logged :: "log_line list"
  sent :: "request_line list"
  world :: 'w

definition sys_init :: "'w \<Rightarrow> 'w sys" where
  "sys_init w = \<lparr>clock = wall_clock_init, RENEWAL_COUNT = 0, wifi = wifi_init, LED_SIGNAL = None,
     logged = [], sent = [], world = w\<rparr>"

text \<open>\<open>info!\<close> and \<open>warn!\<close>, with the pieces of the line.\<close>

definition info :: "string list \<Rightarrow> 'w sys \<Rightarrow> 'w sys" where
  "info ps s = s\<lparr>logged := logged s @ [(Info, concat ps)]\<rparr>"

definition warn :: "string list \<Rightarrow> 'w sys \<Rightarrow> 'w sys" where
  "warn ps s = s\<lparr>logged := logged s @ [(Warn, concat ps)]\<rparr>"

text \<open>The lines of a component that does not see the state.\<close>

definition log_lines :: "log_line list \<Rightarrow> 'w sys \<Rightarrow> 'w sys" where
  "log_lines ls s = s\<lparr>logged := logged s @ ls\<rparr>"

text \<open>\<open>led::set\<close>: the signal keeps the latest pattern.\<close>

definition led_set :: "LedPattern \<Rightarrow> 'w sys \<Rightarrow> 'w sys" where
  "led_set p s = s\<lparr>LED_SIGNAL := Some p\<rparr>"

text \<open>\<open>Instant::now().as_millis()\<close>, \<open>Instant::now().as_secs()\<close>, \<open>esp_alloc::HEAP.free()\<close>, \<open>Timer::after\<close>.\<close>

definition now_millis :: "'w platform \<Rightarrow> 'w sys \<Rightarrow> u64 \<times> 'w sys" where
  "now_millis p s = (let (ms, w) = instant_millis p (world s) in (ms, s\<lparr>world := w\<rparr>))"

definition now_secs :: "'w platform \<Rightarrow> 'w sys \<Rightarrow> u64 \<times> 'w sys" where
  "now_secs p s = (let (n, w) = instant_secs p (world s) in (n, s\<lparr>world := w\<rparr>))"

definition free_heap :: "'w platform \<Rightarrow> 'w sys \<Rightarrow> usize \<times> 'w sys" where
  "free_heap p s = (let (n, w) = heap_free p (world s) in (n, s\<lparr>world := w\<rparr>))"

definition wait_secs :: "'w platform \<Rightarrow> u64 \<Rightarrow> 'w sys \<Rightarrow> 'w sys" where
  "wait_secs p n s = s\<lparr>world := timer_after p n (world s)\<rparr>"

text \<open>\<open>unix_now_secs()\<close>: without an anchor the monotonic clock is not read.\<close>

definition unix_now :: "'w platform \<Rightarrow> 'w sys \<Rightarrow> u64 \<times> 'w sys" where
  "unix_now p s =
     (if anchor_unix (clock s) = 0 then (0, s)
      else let (ms, s) = now_millis p s in (unix_now_secs (clock s) ms, s))"

definition anchor :: "'w platform \<Rightarrow> u64 \<Rightarrow> 'w sys \<Rightarrow> 'w sys" where
  "anchor p unix_secs s =
     (let (ms, s) = now_millis p s in s\<lparr>clock := set_wall_clock unix_secs ms (clock s)\<rparr>)"

section \<open>What the calls leave alone\<close>

named_theorems frame_simps

text \<open>Two states with the same statics (only the log, the requests and the world may differ).\<close>

definition same_statics :: "'w sys \<Rightarrow> 'w sys \<Rightarrow> bool" where
  "same_statics s t \<longleftrightarrow> clock t = clock s \<and> RENEWAL_COUNT t = RENEWAL_COUNT s \<and>
     wifi t = wifi s \<and> LED_SIGNAL t = LED_SIGNAL s"

lemma same_statics_refl [simp]: "same_statics s s"
  by (simp add: same_statics_def)

lemma same_statics_trans [trans]: "same_statics s t \<Longrightarrow> same_statics t u \<Longrightarrow> same_statics s u"
  by (simp add: same_statics_def)

lemma info_frame [frame_simps]:
  "clock (info ps s) = clock s" "RENEWAL_COUNT (info ps s) = RENEWAL_COUNT s"
  "wifi (info ps s) = wifi s" "LED_SIGNAL (info ps s) = LED_SIGNAL s"
  "sent (info ps s) = sent s" "world (info ps s) = world s"
  by (simp_all add: info_def)

lemma warn_frame [frame_simps]:
  "clock (warn ps s) = clock s" "RENEWAL_COUNT (warn ps s) = RENEWAL_COUNT s"
  "wifi (warn ps s) = wifi s" "LED_SIGNAL (warn ps s) = LED_SIGNAL s"
  "sent (warn ps s) = sent s" "world (warn ps s) = world s"
  by (simp_all add: warn_def)

lemma log_lines_frame [frame_simps]:
  "clock (log_lines ls s) = clock s" "RENEWAL_COUNT (log_lines ls s) = RENEWAL_COUNT s"
  "wifi (log_lines ls s) = wifi s" "LED_SIGNAL (log_lines ls s) = LED_SIGNAL s"
  "sent (log_lines ls s) = sent s" "world (log_lines ls s) = world s"
  by (simp_all add: log_lines_def)

lemma now_millis_frame: "now_millis p s = (ms, t) \<Longrightarrow> same_statics s t \<and> sent t = sent s \<and> logged t = logged s"
  by (auto simp: now_millis_def same_statics_def split: prod.splits)

lemma now_secs_frame: "now_secs p s = (n, t) \<Longrightarrow> same_statics s t \<and> sent t = sent s \<and> logged t = logged s"
  by (auto simp: now_secs_def same_statics_def split: prod.splits)

lemma free_heap_frame: "free_heap p s = (n, t) \<Longrightarrow> same_statics s t \<and> sent t = sent s \<and> logged t = logged s"
  by (auto simp: free_heap_def same_statics_def split: prod.splits)

lemma unix_now_frame: "unix_now p s = (n, t) \<Longrightarrow> same_statics s t \<and> sent t = sent s \<and> logged t = logged s"
  by (auto simp: unix_now_def same_statics_def now_millis_def Let_def split: prod.splits if_splits)

lemma unix_now_unanchored_eq: "anchor_unix (clock s) = 0 \<Longrightarrow> unix_now p s = (0, s)"
  by (simp add: unix_now_def)

section \<open>A platform to run the firmware on\<close>

text \<open>
  \<open>replay\<close> answers every connection with the same bytes; its world is the reading of the
  monotonic clock and the bytes not read yet. \<open>offline\<close> refuses every connection. Both are
  used by the examples only.
\<close>

definition replay :: "build_env \<Rightarrow> bytes \<Rightarrow> (u64 \<times> bytes) platform" where
  "replay e resp =
     \<lparr>env = e, push = bounded_push,
      instant_millis = (\<lambda>w. (fst w, w)),
      instant_secs = (\<lambda>w. (fst w div 1000, w)),
      timer_after = (\<lambda>n w. (fst w + n * 1000, snd w)),
      heap_free = (\<lambda>w. (61440, w)),
      rng_random = (\<lambda>w. (4, w)),
      tcp_connect = (\<lambda>sock ip port w. (None, (fst w, resp))),
      tls_open = (\<lambda>rd wr host seed w. (None, w)),
      tls_write_all = (\<lambda>bs w. (None, w)),
      tls_flush = (\<lambda>w. (None, w)),
      tls_read = (\<lambda>n w. (Inr (take n (snd w)), (fst w, drop n (snd w)))),
      tls_close = (\<lambda>w. w)\<rparr>"

definition offline :: "build_env \<Rightarrow> (u64 \<times> bytes) platform" where
  "offline e = (replay e [])\<lparr>tcp_connect := (\<lambda>sock ip port w. (Some ''TimedOut'', w))\<rparr>"

lemma replay_buffer [simp]:
  "bounded_buffer (push (replay e resp))" "env (replay e resp) = e"
  "bounded_buffer (push (offline e))" "env (offline e) = e"
  by (simp_all add: replay_def offline_def ref_buffer.bounded_buffer_axioms)

end
