(* ===== verification/Client.thy ===== *)
theory Client
  imports Platform
begin

text \<open>
  \<open>src/net/client.rs\<close>: one HTTP request over a fresh TLS connection. The client keeps the
  address of the API server and the lengths of its buffers; the content of those for the TLS
  record layer is used by \<open>embedded-tls\<close> alone. The network stack and the random numbers are the
  platform's. A \<open>read\<close> into a slice stores at most as
  many bytes as the slice has.
\<close>

record ApiClient =
  api_ip :: Ipv4Addr
  api_port :: u16
  tls_read_len :: nat
  tls_write_len :: nat
  resp_buf_len :: nat

definition ApiClient_new :: "Ipv4Addr \<Rightarrow> u16 \<Rightarrow> nat \<Rightarrow> nat \<Rightarrow> nat \<Rightarrow> ApiClient" where
  "ApiClient_new ip port read_len write_len resp_len =
     \<lparr>api_ip = ip, api_port = port, tls_read_len = read_len, tls_write_len = write_len,
      resp_buf_len = resp_len\<rparr>"

text \<open>The length of a record buffer, which \<open>main\<close> chooses, and the socket of a request.\<close>

definition TLS_BUF :: nat where
  "TLS_BUF = 16 * 1024 + 256"

definition request_socket :: socket where
  "request_socket = \<lparr>rx_len = 4096, tx_len = 4096, timeout_secs = 10\<rparr>"

text \<open>The seed: eight random words, each in little endian order.\<close>

definition le_bytes :: "u32 \<Rightarrow> u8 list" where
  "le_bytes x = map (\<lambda>i. ucast (drop_bit (8 * i) x)) [0 ..< 4]"

fun chacha_seed :: "'w platform \<Rightarrow> nat \<Rightarrow> 'w \<Rightarrow> u8 list \<times> 'w" where
  "chacha_seed p 0 w = ([], w)"
| "chacha_seed p (Suc n) w =
     (let (x, w) = rng_random p w; (rest, w) = chacha_seed p n w in (le_bytes x @ rest, w))"

definition head_pieces :: "build_env \<Rightarrow> string \<Rightarrow> string \<Rightarrow> string \<Rightarrow> nat \<Rightarrow> string list" where
  "head_pieces e http_method content_type path body_len =
     [http_method, '' '', path, '' HTTP/1.1'' @ CRLF @ ''Host: '', K3S_API_HOST e, '':'',
      K3S_API_PORT_STR e, CRLF @ ''Authorization: Bearer '', K3S_TOKEN e,
      CRLF @ ''User-Agent: picokubelet/0.1'' @ CRLF @ ''Accept: application/json'' @ CRLF @
      ''Content-Type: '', content_type, CRLF @ ''Content-Length: '', dec body_len,
      CRLF @ ''Connection: close'' @ CRLF @ CRLF]"

text \<open>The read loop: \<open>buf\<close> is the part of the response buffer that is filled.\<close>

function read_response ::
    "'w platform \<Rightarrow> nat \<Rightarrow> bytes \<Rightarrow> 'w \<Rightarrow> (ApiError + bytes) \<times> 'w" where
  "read_response p cap buf w =
     (if length buf = cap then (Inl (Truncated (of_nat (length buf))), w)
      else case tls_read p (cap - length buf) w of
        (Inr bs, w) \<Rightarrow>
          let got = take (cap - length buf) bs
          in if got = [] then (Inr buf, w) else read_response p cap (buf @ got) w
      | (Inl ConnectionClosed, w) \<Rightarrow> (Inr buf, w)
      | (Inl (TlsOther e), w) \<Rightarrow> (Inl (Tls (TlsOther e)), w))"
  by pat_completeness auto
termination
proof (relation "measure (\<lambda>(p, cap, buf, w). cap - length buf)")
  show "((p, cap, buf @ got, w'), p, cap, buf, w) \<in> measure (\<lambda>(p, cap, buf, w). cap - length buf)"
    if "got = take (cap - length buf) bs" "got \<noteq> []"
    for p :: "'w platform" and cap buf w w' bs got
  proof -
    from that have "0 < length got" "length buf < cap" by auto
    then have "cap - (length buf + length got) < cap - length buf" by arith
    then show ?thesis by simp
  qed
qed simp

declare read_response.simps [simp del]

definition exchange ::
    "'w platform \<Rightarrow> ApiClient \<Rightarrow> string \<Rightarrow> string \<Rightarrow> string \<Rightarrow> bytes option \<Rightarrow> 'w
      \<Rightarrow> (ApiError + Response) \<times> 'w" where
  "exchange p c http_method content_type path body w =
     (case tcp_connect p request_socket (api_ip c) (api_port c) w of
        (Some e, w) \<Rightarrow> (Inl (ApiError_from_ConnectError e), w)
      | (None, w) \<Rightarrow>
      let (seed, w) = chacha_seed p 8 w in
      case tls_open p (tls_read_len c) (tls_write_len c) (K3S_API_HOST (env p)) seed w of
        (Some e, w) \<Rightarrow> (Inl (ApiError_from_TlsError e), w)
      | (None, w) \<Rightarrow>
      let body_len = (case body of Some b \<Rightarrow> length b | None \<Rightarrow> 0) in
      case write_fmt (push p) 2048 [] (head_pieces (env p) http_method content_type path body_len) of
        None \<Rightarrow> (Inl Fmt, w)
      | Some head \<Rightarrow>
      case tls_write_all p head w of
        (Some e, w) \<Rightarrow> (Inl (ApiError_from_TlsError e), w)
      | (None, w) \<Rightarrow>
      case (case body of Some b \<Rightarrow> tls_write_all p b w | None \<Rightarrow> (None, w)) of
        (Some e, w) \<Rightarrow> (Inl (ApiError_from_TlsError e), w)
      | (None, w) \<Rightarrow>
      case tls_flush p w of
        (Some e, w) \<Rightarrow> (Inl (ApiError_from_TlsError e), w)
      | (None, w) \<Rightarrow>
      case read_response p (resp_buf_len c) [] w of
        (Inl e, w) \<Rightarrow> (Inl e, w)
      | (Inr buf, w) \<Rightarrow> (parse_response buf, tls_close p w))"

text \<open>The request as the callers see it, with the world inside the state of the firmware.\<close>

definition request ::
    "'w platform \<Rightarrow> ApiClient \<Rightarrow> string \<Rightarrow> string \<Rightarrow> string \<Rightarrow> bytes option \<Rightarrow> 'w sys
      \<Rightarrow> (ApiError + Response) \<times> 'w sys" where
  "request p c http_method content_type path body s =
     (let (r, w) = exchange p c http_method content_type path body (world s);
          line = \<lparr>rq_method = http_method, rq_content_type = content_type, rq_path = path,
                  rq_body = body\<rparr>
      in (r, s\<lparr>world := w, sent := sent s @ [line]\<rparr>))"

definition get :: "'w platform \<Rightarrow> ApiClient \<Rightarrow> string \<Rightarrow> 'w sys \<Rightarrow> (ApiError + Response) \<times> 'w sys" where
  "get p c path s = request p c ''GET'' ''application/json'' path None s"

definition post ::
    "'w platform \<Rightarrow> ApiClient \<Rightarrow> string \<Rightarrow> bytes \<Rightarrow> 'w sys \<Rightarrow> (ApiError + Response) \<times> 'w sys" where
  "post p c path body s = request p c ''POST'' ''application/json'' path (Some body) s"

definition patch_merge ::
    "'w platform \<Rightarrow> ApiClient \<Rightarrow> string \<Rightarrow> bytes \<Rightarrow> 'w sys \<Rightarrow> (ApiError + Response) \<times> 'w sys" where
  "patch_merge p c path body s =
     request p c ''PATCH'' ''application/merge-patch+json'' path (Some body) s"

definition patch_strategic ::
    "'w platform \<Rightarrow> ApiClient \<Rightarrow> string \<Rightarrow> bytes \<Rightarrow> 'w sys \<Rightarrow> (ApiError + Response) \<times> 'w sys" where
  "patch_strategic p c path body s =
     request p c ''PATCH'' ''application/strategic-merge-patch+json'' path (Some body) s"

section \<open>The request head\<close>

lemma length_head_pieces:
  "length (concat (head_pieces e m ct path n)) =
    155 + length m + length path + length (K3S_API_HOST e) + length (K3S_API_PORT_STR e)
      + length (K3S_TOKEN e) + length ct + length (dec n)"
  by (simp add: head_pieces_def CRLF_def)

section \<open>Reading a stream\<close>

text \<open>
  \<open>delivers rd w bs\<close>: a reader in state \<open>w\<close> delivers the bytes \<open>bs\<close> and then the end of the
  stream, in whatever portions it likes: a read into a slice of \<open>n\<close> bytes stores between one
  and \<open>n\<close> of them, and at the end it stores nothing or reports a closed connection.
\<close>

inductive delivers :: "(nat \<Rightarrow> 'w \<Rightarrow> (TlsError + bytes) \<times> 'w) \<Rightarrow> 'w \<Rightarrow> bytes \<Rightarrow> bool"
  for rd where
  delivers_end:
    "(\<And>n. 0 < n \<Longrightarrow> fst (rd n w) = Inr [] \<or> fst (rd n w) = Inl ConnectionClosed) \<Longrightarrow> delivers rd w []"
| delivers_more:
    "bs \<noteq> [] \<Longrightarrow>
     (\<And>n. 0 < n \<Longrightarrow> fst (rd n w) = Inr (take (k n) bs) \<and> 0 < k n \<and> k n \<le> n \<and>
       delivers rd (snd (rd n w)) (drop (k n) bs)) \<Longrightarrow>
     delivers rd w bs"

text \<open>However the bytes are portioned, the loop has read all of them or fills its buffer.\<close>

lemma read_response_delivers:
  assumes "delivers (tls_read p) w bs" "length buf \<le> cap"
  shows "fst (read_response p cap buf w) =
    (if length buf + length bs < cap then Inr (buf @ bs) else Inl (Truncated (of_nat cap)))"
  using assms
proof (induction w bs arbitrary: buf rule: delivers.induct)
  case (delivers_end w)
  show ?case
  proof (cases "length buf = cap")
    case True
    then show ?thesis by (subst read_response.simps) simp
  next
    case False
    with delivers_end.prems have "0 < cap - length buf" by simp
    from delivers_end.hyps [OF this] False delivers_end.prems show ?thesis
      by (subst read_response.simps) (auto split: prod.splits sum.splits)
  qed
next
  case (delivers_more bs w k)
  let ?n = "cap - length buf"
  show ?case
  proof (cases "length buf = cap")
    case True
    then show ?thesis by (subst read_response.simps) simp
  next
    case False
    with delivers_more.prems have n: "0 < ?n" by simp
    obtain w' where w': "tls_read p ?n w = (Inr (take (k ?n) bs), w')"
      using delivers_more.IH [OF n] by (cases "tls_read p ?n w") auto
    have k: "0 < k ?n" "k ?n \<le> ?n" using delivers_more.IH [OF n] by auto
    have step: "read_response p cap buf w = read_response p cap (buf @ take (k ?n) bs) w'"
      using False n w' k delivers_more.hyps
      by (subst read_response.simps) (simp add: min_def)
    have "length (buf @ take (k ?n) bs) \<le> cap" using k n by simp
    with delivers_more.IH [OF n] w'
    show ?thesis by (auto simp: step)
  qed
qed


section \<open>What a request can return\<close>

lemma read_response_Inl:
  "read_response p cap buf w = (Inl e, w') \<Longrightarrow> e = Truncated (of_nat cap) \<or> (\<exists>t. e = Tls (TlsOther t))"
proof (induction p cap buf w rule: read_response.induct)
  case (1 p cap buf w)
  have IH: "e = Truncated (of_nat cap) \<or> (\<exists>t. e = Tls (TlsOther t))"
    if "tls_read p (cap - length buf) w = (Inr bs, w1)" "take (cap - length buf) bs \<noteq> []"
      "read_response p cap (buf @ take (cap - length buf) bs) w1 = (Inl e, w')"
      "length buf \<noteq> cap" for bs w1
    using "1.IH" [OF that(4) that(1) [symmetric] refl refl that(2) that(3)] .
  show ?case
    using "1.prems"
    by (subst (asm) read_response.simps)
      (auto simp: Let_def split: prod.splits sum.splits TlsError.splits if_splits dest: IH)
qed

lemma read_response_Inr:
  "read_response p cap buf w = (Inr out, w') \<Longrightarrow> length buf \<le> cap \<Longrightarrow>
    length out < cap \<and> prefix buf out"
proof (induction p cap buf w rule: read_response.induct)
  case (1 p cap buf w)
  have IH: "length out < cap \<and> prefix buf out"
    if "tls_read p (cap - length buf) w = (Inr bs, w1)" "take (cap - length buf) bs \<noteq> []"
      "read_response p cap (buf @ take (cap - length buf) bs) w1 = (Inr out, w')"
      "length buf \<noteq> cap" for bs w1
  proof -
    have "length (buf @ take (cap - length buf) bs) \<le> cap" using "1.prems"(2) by simp
    from "1.IH" [OF that(4) that(1) [symmetric] refl refl that(2) that(3) this]
    show ?thesis by (auto dest: append_prefixD)
  qed
  show ?case
    using "1.prems"
    by (subst (asm) read_response.simps)
      (auto simp: Let_def split: prod.splits sum.splits TlsError.splits if_splits dest: IH)
qed

text \<open>The errors of a request; the variants for status codes are never made here.\<close>

definition transport_error :: "nat \<Rightarrow> ApiError \<Rightarrow> bool" where
  "transport_error cap e \<longleftrightarrow>
     (case e of Tcp t \<Rightarrow> True | Tls t \<Rightarrow> True | Fmt \<Rightarrow> True | Truncated n \<Rightarrow> n = of_nat cap
      | BadResponse \<Rightarrow> True | _ \<Rightarrow> False)"

lemma exchange_error:
  "exchange p c m ct path b w = (Inl e, w') \<Longrightarrow> transport_error (resp_buf_len c) e"
  by (auto simp: exchange_def transport_error_def ApiError_from_ConnectError_def
      ApiError_from_TlsError_def Let_def split: prod.splits sum.splits option.splits
      dest!: parse_response_Inl dest!: read_response_Inl)

lemma exchange_Inr:
  assumes "exchange p c m ct path b w = (Inr r, w')"
  shows "\<exists>w1 w2 out. read_response p (resp_buf_len c) [] w1 = (Inr out, w2) \<and>
    parse_response out = Inr r"
  using assms
  by (auto simp: exchange_def Let_def split: prod.splits sum.splits option.splits)

lemma exchange_body_fits:
  assumes "exchange p c m ct path b w = (Inr r, w')"
  shows "length (rs_body r) + 4 < resp_buf_len c"
proof -
  from exchange_Inr [OF assms] obtain w1 w2 out
    where read: "read_response p (resp_buf_len c) [] w1 = (Inr out, w2)"
      and parse: "parse_response out = Inr r"
    by blast
  from parse obtain i where i: "find_sub (CRLF @ CRLF) out = Some i" "rs_body r = drop (i + 4) out"
    by (rule parse_response_Inr)
  have "i + 4 \<le> length out"
    using find_sub_bound [OF i(1)] by (simp add: CRLF_def)
  moreover have "length out < resp_buf_len c"
    using read_response_Inr [OF read] by simp
  ultimately show ?thesis using i(2) by simp
qed

lemma length_chacha_seed: "length (fst (chacha_seed p n w)) = 4 * n"
  by (induction n arbitrary: w) (simp_all add: Let_def le_bytes_def split_def)

text \<open>
  \<open>transmitted p c m ct path body w w'\<close>: connecting, the handshake and the writes succeed
  from world \<open>w\<close> on, and the read loop starts in \<open>w'\<close>.
\<close>

definition transmitted ::
    "'w platform \<Rightarrow> ApiClient \<Rightarrow> string \<Rightarrow> string \<Rightarrow> string \<Rightarrow> bytes option \<Rightarrow> 'w \<Rightarrow> 'w \<Rightarrow> bool" where
  "transmitted p c m ct path body w w' \<longleftrightarrow>
     (let (e0, w0) = tcp_connect p request_socket (api_ip c) (api_port c) w;
          (seed, w1) = chacha_seed p 8 w0;
          (e1, w2) = tls_open p (tls_read_len c) (tls_write_len c) (K3S_API_HOST (env p)) seed w1;
          head = concat (head_pieces (env p) m ct path (case body of Some b \<Rightarrow> length b | None \<Rightarrow> 0));
          (e2, w3) = tls_write_all p head w2;
          (e3, w4) = (case body of Some b \<Rightarrow> tls_write_all p b w3 | None \<Rightarrow> (None, w3));
          (e4, w5) = tls_flush p w4
      in length head \<le> 2048 \<and> e0 = None \<and> e1 = None \<and> e2 = None \<and> e3 = None \<and> e4 = None \<and> w' = w5)"

lemma exchange_transmitted:
  assumes "bounded_buffer (push p)" "transmitted p c m ct path body w w'"
  shows "fst (exchange p c m ct path body w) =
    (case fst (read_response p (resp_buf_len c) [] w') of
       Inl e \<Rightarrow> Inl e | Inr buf \<Rightarrow> parse_response buf)"
proof -
  have head: "write_fmt (push p) 2048 [] ps = (if length (concat ps) \<le> 2048 then Some (concat ps) else None)" for ps
    using bounded_buffer.write_fmt_eq [OF assms(1), of "[]" 2048 ps] by simp
  show ?thesis
    using assms(2)
    by (auto simp: transmitted_def exchange_def head Let_def split: prod.splits sum.splits option.splits)
qed

section \<open>Properties\<close>

lemma replay_delivers: "delivers (tls_read (replay e resp)) (ms, bs) bs"
proof (induction "length bs" arbitrary: bs rule: less_induct)
  case less
  show ?case
  proof (cases "bs = []")
    case True
    show ?thesis unfolding True by (rule delivers_end) (simp add: replay_def)
  next
    case False
    show ?thesis
    proof (rule delivers_more [where k = "\<lambda>n. n"])
      fix n :: nat
      assume "0 < n"
      with False have "delivers (tls_read (replay e resp)) (ms, drop n bs) (drop n bs)"
        by (intro less) simp
      with \<open>0 < n\<close> show "fst (tls_read (replay e resp) n (ms, bs)) = Inr (take n bs) \<and> 0 < n \<and> n \<le> n \<and>
          delivers (tls_read (replay e resp)) (snd (tls_read (replay e resp) n (ms, bs))) (drop n bs)"
        by (simp add: replay_def)
    qed (rule False)
  qed
qed

lemma replay_transmitted:
  assumes "length (concat (head_pieces e m ct path (case b of None \<Rightarrow> 0 | Some t \<Rightarrow> length t))) \<le> 2048"
  shows "transmitted (replay e resp) c m ct path b (ms, bs) (ms, resp)"
proof -
  have "snd (chacha_seed (replay e resp) n w) = w" for n w
    by (induction n arbitrary: w) (simp_all add: Let_def split_def, simp add: replay_def)
  then have "\<exists>seed. chacha_seed (replay e resp) 8 (ms, resp) = (seed, (ms, resp))"
    by (metis prod.collapse)
  with assms show ?thesis
    by (auto simp: transmitted_def Let_def split: option.splits) (simp_all add: replay_def)
qed

text \<open>C14. The read loop does not depend on how the connection portions the response: for every
  delivery of the bytes \<open>bs\<close> it returns exactly \<open>bs\<close> when they leave room in the response
  buffer, and \<open>Truncated\<close> otherwise, also where they fill it exactly.\<close>

theorem read_any_portions:
  assumes "delivers (tls_read p) w bs"
  shows "fst (read_response p cap [] w) =
    (if length bs < cap then Inr bs else Inl (Truncated (of_nat cap)))"
  using read_response_delivers [OF assms, of "[]" cap] by simp

lemma read_any_portions_witness:
  "fst (read_response (replay (sample_env ''heinrich'') []) 8192 [] (0, ''HTTP/1.1 200 OK''))
     = Inr ''HTTP/1.1 200 OK'' \<and>
   fst (read_response (replay (sample_env ''heinrich'') []) 15 [] (0, ''HTTP/1.1 200 OK''))
     = Inl (Truncated 15)"
  using read_any_portions [OF replay_delivers, where cap = 8192]
    read_any_portions [OF replay_delivers, where cap = 15]
  by simp

text \<open>C13. A whole exchange: once connecting, the handshake and the writes have succeeded, a response in
  the format of HTTP that is shorter than the response buffer reaches the caller with its status
  code and its body, however the connection portions it. A client or server error of HTTP is a
  response like any other.\<close>

theorem exchange_returns_response:
  assumes "bounded_buffer (push p)" "transmitted p c m ct path b w w'"
    and "delivers (tls_read p) w' (response_text version code reason hs body)"
    and "length (response_text version code reason hs body) < resp_buf_len c"
    and "version_ok version" "code < 2 ^ 16" "list_all printable reason" "list_all header_ok hs"
  shows "\<exists>resp. fst (exchange p c m ct path b w) = Inr resp \<and> rs_status resp = of_nat code \<and>
    rs_body resp = body"
  using exchange_transmitted [OF assms(1,2)] read_response_delivers [OF assms(3), of "[]"] assms(4)
    parse_response_text [OF assms(5-8), of body]
  by simp

definition sample_client :: ApiClient where
  "sample_client = ApiClient_new (192, 168, 1, 10) 6443 TLS_BUF TLS_BUF 8192"

lemma exchange_returns_response_witness:
  "\<exists>resp. fst (exchange (replay (sample_env ''heinrich'') (response_text ''HTTP/1.1'' 404 ''Not Found'' [] ''gone''))
      sample_client ''GET'' ''application/json'' ''/version'' None (0, [])) = Inr resp \<and>
    rs_status resp = 404 \<and> rs_body resp = ''gone''"
proof -
  let ?e = "sample_env ''heinrich''"
  have "length (concat (head_pieces ?e ''GET'' ''application/json'' ''/version'' 0)) \<le> 2048"
    by (simp add: length_head_pieces sample_env_def dec.simps)
  then have t: "transmitted (replay ?e resp) sample_client ''GET'' ''application/json'' ''/version'' None (0, []) (0, resp)" for resp
    by (intro replay_transmitted) simp
  have "length (response_text ''HTTP/1.1'' 404 ''Not Found'' [] ''gone'') < resp_buf_len sample_client"
    "version_ok ''HTTP/1.1''" "list_all printable ''Not Found''"
    by code_simp+
  from exchange_returns_response [OF replay_buffer(1) t replay_delivers this(1,2) _ this(3)]
  show ?thesis by simp
qed

text \<open>C33. The errors of a request: whatever the network does, a request fails with \<open>Tcp\<close>, \<open>Tls\<close>,
  \<open>Fmt\<close>, \<open>BadResponse\<close> or \<open>Truncated\<close> with the length of the buffer, never with one of the
  variants for a status code; a body that is returned lies inside the buffer with room for the
  empty line.\<close>

theorem exchange_outcome:
  "case fst (exchange p c m ct path b w) of
     Inl e \<Rightarrow> transport_error (resp_buf_len c) e
   | Inr resp \<Rightarrow> length (rs_body resp) + 4 < resp_buf_len c"
  by (cases "exchange p c m ct path b w")
    (auto split: sum.splits dest: exchange_error exchange_body_fits)

definition sample_identity :: NodeIdentity where
  "sample_identity = \<lparr>ni_name = ''heinrich'', ni_ip = (10, 0, 0, 7),
     ni_lease_path = ''/apis/coordination.k8s.io/v1/namespaces/kube-node-lease/leases/heinrich'',
     ni_status_path = ''/api/v1/nodes/heinrich/status'', ni_node_path = ''/api/v1/nodes/heinrich''\<rparr>"

definition answer_200 :: bytes where
  "answer_200 = response_text ''HTTP/1.1'' 200 ''OK'' [(''Date'', ''Sat, 02 May 2026 15:47:17 GMT'')] ''{}''"

definition sample_node :: "(u64 \<times> bytes) platform" where
  "sample_node = replay (sample_env ''heinrich'') answer_200"

definition sample_sys :: "(u64 \<times> bytes) sys" where
  "sample_sys = sys_init (4200, [])"

lemma sample_name: "NODE_NAME (sample_env name) = name"
  by (simp add: NODE_NAME_def sample_env_def)

text \<open>On the sample platform every request whose head fits is answered with 200.\<close>

lemma sample_exchange:
  assumes "length m + length path + length ct + length (dec (case b of None \<Rightarrow> 0 | Some t \<Rightarrow> length t)) \<le> 1800"
  shows "\<exists>resp w'. exchange sample_node sample_client m ct path b w = (Inr resp, w') \<and> rs_status resp = 200 \<and>
    header resp ''Date'' = Some ''Sat, 02 May 2026 15:47:17 GMT''"
proof -
  let ?hs = "[(''Date'', ''Sat, 02 May 2026 15:47:17 GMT'')]"
  have ok: "version_ok ''HTTP/1.1''" "list_all printable ''OK''" "list_all header_ok ?hs"
    and find: "find (\<lambda>(k, v). eq_ignore_ascii_case k ''Date'') ?hs
      = Some (''Date'', ''Sat, 02 May 2026 15:47:17 GMT'')"
    and len: "length answer_200 < resp_buf_len sample_client"
    by code_simp+
  have "transmitted sample_node sample_client m ct path b (fst w, snd w) (fst w, answer_200)"
    unfolding sample_node_def using assms
    by (intro replay_transmitted) (simp add: length_head_pieces sample_env_def)
  from exchange_transmitted [OF _ this] read_response_delivers [of sample_node "(fst w, answer_200)" answer_200 "[]"
      "resp_buf_len sample_client"] len
  have "fst (exchange sample_node sample_client m ct path b w) = parse_response answer_200"
    using replay_delivers [of "sample_env ''heinrich''" answer_200 "fst w" answer_200]
    by (simp add: sample_node_def)
  then show ?thesis
    using parse_response_text [OF ok(1) _ ok(2,3), of 200 "''{}''"] header_text [OF ok(3)] find
    by (cases "exchange sample_node sample_client m ct path b w") (simp add: answer_200_def)
qed

lemma read_response_clock:
  "fst (snd (read_response (replay e resp) cap buf w)) = fst w"
proof (induction "replay e resp" cap buf w rule: read_response.induct)
  case (1 cap buf w)
  let ?got = "take (cap - length buf) (snd w)"
  have read: "tls_read (replay e resp) (cap - length buf) w
      = (Inr ?got, (fst w, drop (cap - length buf) (snd w)))"
    by (simp add: replay_def)
  show ?case
  proof (cases "length buf = cap \<or> ?got = []")
    case True
    then show ?thesis by (subst read_response.simps) (auto simp: read)
  next
    case False
    then show ?thesis
      using "1" [OF _ read [symmetric] refl refl]
      by (subst read_response.simps) (simp add: read)
  qed
qed

lemma sample_exchange_clock:
  assumes "exchange sample_node sample_client m ct path b w = (r, w')"
  shows "fst w' = fst w"
proof -
  have seed: "snd (chacha_seed (replay e resp) n v) = v" for e resp n and v :: "u64 \<times> bytes"
    by (induction n arbitrary: v) (simp_all add: Let_def split_def, simp add: replay_def)
  define v where "v = (fst w, answer_200)"
  obtain s where s: "chacha_seed sample_node 8 v = (s, v)"
    using seed [of "sample_env ''heinrich''" answer_200 8 v]
    by (cases "chacha_seed sample_node 8 v") (simp add: sample_node_def)
  have net: "tcp_connect sample_node sock ip port w = (None, v)" "tls_open sample_node rd wr h s v = (None, v)"
    "tls_write_all sample_node bs v = (None, v)" "tls_flush sample_node v = (None, v)"
    "tls_close sample_node = (\<lambda>w. w)" for sock ip port rd wr h bs
    by (simp_all add: sample_node_def replay_def v_def)
  obtain q u where q: "read_response sample_node (resp_buf_len sample_client) [] v = (q, u)"
    by (cases "read_response sample_node (resp_buf_len sample_client) [] v")
  have "fst u = fst w"
    using read_response_clock [of "sample_env ''heinrich''" answer_200 "resp_buf_len sample_client" "[]" v] q
    by (simp add: sample_node_def v_def)
  moreover have "fst v = fst w" by (simp add: v_def)
  ultimately show ?thesis
    using assms by (auto simp: exchange_def net s q Let_def split: option.splits sum.splits)
qed

end
