(* ===== verification/Conditions.thy ===== *)
theory Conditions
  imports Config
begin

text \<open>
  \<open>src/k8s/conditions.rs\<close>: the state of the node's conditions. \<open>CondState\<close> and
  \<open>CustomCondState\<close> hold the last value of a condition and the time of its last change;
  the evaluators \<open>eval_*\<close> derive the five custom conditions from sampled inputs. The
  contract both kinds of state share is the locale \<open>flip_slot\<close>, interpreted on both.
\<close>

section \<open>Conditions with a boolean value\<close>

record CondState =
  cs_value :: bool
  cs_transitioned_at :: u64

definition CondState_new :: "bool \<Rightarrow> u64 \<Rightarrow> CondState" where
  "CondState_new initial now = \<lparr>cs_value = initial, cs_transitioned_at = now\<rparr>"

definition CondState_observe :: "bool \<Rightarrow> u64 \<Rightarrow> CondState \<Rightarrow> bool \<times> CondState" where
  "CondState_observe current now s =
     (let flipped = current \<noteq> cs_value s
      in (flipped, if flipped then s\<lparr>cs_value := current, cs_transitioned_at := now\<rparr> else s))"

record NodeCondTracker =
  ready :: CondState
  memory_pressure :: CondState
  disk_pressure :: CondState
  pid_pressure :: CondState

definition NodeCondTracker_new :: "u64 \<Rightarrow> NodeCondTracker" where
  "NodeCondTracker_new now =
     \<lparr>ready = CondState_new True now, memory_pressure = CondState_new False now,
      disk_pressure = CondState_new False now, pid_pressure = CondState_new False now\<rparr>"

section \<open>Custom conditions\<close>

datatype CondStatus = CondTrue | CondFalse | CondUnknown

fun CondStatus_as_str :: "CondStatus \<Rightarrow> string" where
  "CondStatus_as_str CondTrue = ''True''"
| "CondStatus_as_str CondFalse = ''False''"
| "CondStatus_as_str CondUnknown = ''Unknown''"

record CustomCond =
  cc_status :: CondStatus
  cc_reason :: string
  cc_message :: string

record CustomCondState =
  ccs_status :: CondStatus
  ccs_transitioned_at :: u64

definition CustomCondState_new :: "u64 \<Rightarrow> CustomCondState" where
  "CustomCondState_new now = \<lparr>ccs_status = CondUnknown, ccs_transitioned_at = now\<rparr>"

definition CustomCondState_observe ::
    "CondStatus \<Rightarrow> u64 \<Rightarrow> CustomCondState \<Rightarrow> bool \<times> CustomCondState" where
  "CustomCondState_observe current now s =
     (if current \<noteq> ccs_status s
      then (True, s\<lparr>ccs_status := current, ccs_transitioned_at := now\<rparr>)
      else (False, s))"

record CustomCondInputs =
  heap_free_bytes :: usize
  uptime_secs :: u64
  wifi_reconnects_5min :: u32
  renewal_count :: u32
  bssid_changed :: bool
  time_slipped :: bool

definition heap_pct_free :: "CustomCondInputs \<Rightarrow> u32" where
  "heap_pct_free i =
     (let free = (ucast (min (heap_free_bytes i) HEAP_TOTAL_BYTES) :: u64)
      in ucast ((free * 100) div ucast HEAP_TOTAL_BYTES))"

record CustomCondTracker =
  vibes :: CustomCondState
  caffeinated :: CustomCondState
  existential :: CustomCondState
  peckish :: CustomCondState
  haunted :: CustomCondState

definition CustomCondTracker_new :: "u64 \<Rightarrow> CustomCondTracker" where
  "CustomCondTracker_new now =
     \<lparr>vibes = CustomCondState_new now, caffeinated = CustomCondState_new now,
      existential = CustomCondState_new now, peckish = CustomCondState_new now,
      haunted = CustomCondState_new now\<rparr>"

section \<open>The evaluators\<close>

definition eval_vibes :: "CustomCondInputs \<Rightarrow> CustomCond" where
  "eval_vibes i =
     (if VIBES_CURSED_RECONNECTS \<le> wifi_reconnects_5min i then
        \<lparr>cc_status = CondFalse, cc_reason = ''Cursed'', cc_message = ''wifi keeps doing the thing''\<rparr>
      else let pct = heap_pct_free i in
      if pct < 30 then
        \<lparr>cc_status = CondFalse, cc_reason = ''Off'', cc_message = ''heap is hostile''\<rparr>
      else if pct > 70 \<and> wifi_reconnects_5min i = 0 \<and> uptime_secs i < CAFFEINATED_FRESH_SECS then
        \<lparr>cc_status = CondTrue, cc_reason = ''Immaculate'',
         cc_message = ''freshly booted, heap abundant''\<rparr>
      else if pct > 50 \<and> wifi_reconnects_5min i = 0 then
        \<lparr>cc_status = CondTrue, cc_reason = ''Cromulent'', cc_message = ''perfectly cromulent''\<rparr>
      else
        \<lparr>cc_status = CondUnknown, cc_reason = ''Dissociating'',
         cc_message = ''vibes indeterminate''\<rparr>)"

definition eval_caffeinated :: "CustomCondInputs \<Rightarrow> CustomCond" where
  "eval_caffeinated i =
     (if uptime_secs i < CAFFEINATED_FRESH_SECS then
        \<lparr>cc_status = CondTrue, cc_reason = ''FreshlyBrewed'',
         cc_message = ''fresh out of the bootloader''\<rparr>
      else
        \<lparr>cc_status = CondFalse, cc_reason = ''Decaf'',
         cc_message = ''running on fumes and conviction''\<rparr>)"

definition eval_existential :: "CustomCondInputs \<Rightarrow> CustomCond" where
  "eval_existential i =
     (if renewal_count i \<ge> 10000 then
        \<lparr>cc_status = CondTrue, cc_reason = ''Transcendent'', cc_message = ''the lease is the self''\<rparr>
      else if renewal_count i \<ge> 1000 then
        \<lparr>cc_status = CondTrue, cc_reason = ''Accepting'', cc_message = ''this is fine, mostly''\<rparr>
      else if renewal_count i \<ge> 100 then
        \<lparr>cc_status = CondTrue, cc_reason = ''Questioning'', cc_message = ''is this all there is''\<rparr>
      else
        \<lparr>cc_status = CondFalse, cc_reason = ''Innocent'', cc_message = ''still believes in pods''\<rparr>)"

definition eval_peckish :: "CustomCondInputs \<Rightarrow> CustomCond" where
  "eval_peckish i =
     (if heap_free_bytes i < MEMORY_PRESSURE_FREE_BYTES then
        \<lparr>cc_status = CondTrue, cc_reason = ''Hungry'', cc_message = ''would eat a byte right now''\<rparr>
      else let pct = heap_pct_free i in
      if pct > 60 then
        \<lparr>cc_status = CondFalse, cc_reason = ''Sated'', cc_message = ''heap is plenty''\<rparr>
      else if pct > 40 then
        \<lparr>cc_status = CondTrue, cc_reason = ''CouldGoForASnack'',
         cc_message = ''could go for a snack''\<rparr>
      else
        \<lparr>cc_status = CondTrue, cc_reason = ''Hungry'', cc_message = ''would eat a byte right now''\<rparr>)"

definition eval_haunted :: "CustomCondInputs \<Rightarrow> CustomCond" where
  "eval_haunted i =
     (if bssid_changed i then
        \<lparr>cc_status = CondTrue, cc_reason = ''NewGhost'',
         cc_message = ''associated to a different bssid''\<rparr>
      else if time_slipped i then
        \<lparr>cc_status = CondTrue, cc_reason = ''TimeSlipped'',
         cc_message = ''wall clock disagrees with monotonic''\<rparr>
      else
        \<lparr>cc_status = CondFalse, cc_reason = ''Calm'', cc_message = ''no ghosts this interval''\<rparr>)"

section \<open>The contract of a condition slot\<close>

text \<open>
  \<open>observe v t s\<close> tells whether the value changed and gives the next state. The time of
  the last change is replaced exactly when the value changes.
\<close>

fun observe_all :: "('v \<Rightarrow> u64 \<Rightarrow> 's \<Rightarrow> bool \<times> 's) \<Rightarrow> ('v \<times> u64) list \<Rightarrow> 's \<Rightarrow> 's" where
  "observe_all observe [] s = s"
| "observe_all observe ((v, t) # vs) s = observe_all observe vs (snd (observe v t s))"

lemma observe_all_append:
  "observe_all obs (xs @ ys) s = observe_all obs ys (observe_all obs xs s)"
  by (induction obs xs s rule: observe_all.induct) auto

locale flip_slot =
  fixes observe :: "'v \<Rightarrow> u64 \<Rightarrow> 's \<Rightarrow> bool \<times> 's"
    and slot_value :: "'s \<Rightarrow> 'v"
    and slot_time :: "'s \<Rightarrow> u64"
  assumes observe_flag: "fst (observe v t s) \<longleftrightarrow> v \<noteq> slot_value s"
    and observe_value: "slot_value (snd (observe v t s)) = v"
    and observe_time: "slot_time (snd (observe v t s)) = (if v = slot_value s then slot_time s else t)"
begin

lemma observe_all_value: "slot_value (observe_all observe (xs @ [(v, t)]) s) = v"
  by (simp add: observe_all_append observe_value)

lemma observe_all_const:
  "list_all (\<lambda>(w, u). w = slot_value s) ys \<Longrightarrow>
    slot_value (observe_all observe ys s) = slot_value s \<and>
    slot_time (observe_all observe ys s) = slot_time s"
proof (induction ys arbitrary: s)
  case (Cons y ys)
  obtain w u where y: "y = (w, u)" by fastforce
  with Cons.prems have w: "w = slot_value s" by simp
  then have same: "slot_value (snd (observe w u s)) = slot_value s"
    "slot_time (snd (observe w u s)) = slot_time s"
    by (simp_all add: observe_value observe_time)
  from Cons.prems y have "list_all (\<lambda>(w', u'). w' = slot_value (snd (observe w u s))) ys"
    by (simp add: observe_value)
  from Cons.IH [OF this] same y show ?case by simp
qed simp

text \<open>The time kept is that of the observation that changed the value last.\<close>

lemma observe_all_time:
  assumes "slot_value (observe_all observe xs s) \<noteq> v" "list_all (\<lambda>(w, u). w = v) ys"
  shows "slot_time (observe_all observe (xs @ (v, t) # ys) s) = t"
proof -
  let ?s = "snd (observe v t (observe_all observe xs s))"
  have "slot_value ?s = v" "slot_time ?s = t"
    using assms(1) by (simp_all add: observe_value observe_time)
  then show ?thesis
    using observe_all_const [of ?s ys] assms(2) by (simp add: observe_all_append)
qed

text \<open>With times that never go back it is never later than the last observation.\<close>

lemma observe_all_time_le:
  assumes "sorted (map snd xs)" "\<forall>t \<in> snd ` set xs. slot_time s \<le> t" "xs \<noteq> []"
  shows "slot_time (observe_all observe xs s) \<le> snd (last xs)"
  using assms
proof (induction xs arbitrary: s)
  case (Cons x xs)
  obtain v t where x: "x = (v, t)" by fastforce
  have le: "slot_time (snd (observe v t s)) \<le> t"
    using Cons.prems(2) x by (simp add: observe_time)
  show ?case
  proof (cases "xs = []")
    case True
    with le x show ?thesis by simp
  next
    case False
    have "\<forall>u \<in> snd ` set xs. slot_time (snd (observe v t s)) \<le> u"
      using Cons.prems(1) x le by fastforce
    with Cons.IH [of "snd (observe v t s)"] Cons.prems(1) x False show ?thesis by simp
  qed
qed simp

end

interpretation cond_slot: flip_slot CondState_observe cs_value cs_transitioned_at
  by unfold_locales (simp_all add: CondState_observe_def Let_def)

interpretation custom_slot: flip_slot CustomCondState_observe ccs_status ccs_transitioned_at
  by unfold_locales (simp_all add: CustomCondState_observe_def)

section \<open>What the evaluators compute\<close>

lemma unat_heap_pct_free:
  "unat (heap_pct_free i) = min (unat (heap_free_bytes i)) 102400 * 100 div 102400"
proof -
  let ?f = "min (heap_free_bytes i) HEAP_TOTAL_BYTES"
  have f: "unat ?f = min (unat (heap_free_bytes i)) 102400"
    by (simp add: min_def word_le_nat_alt HEAP_TOTAL_BYTES_def)
  have u: "unat (ucast a :: u64) = unat a" for a :: u32
    using unat_less [of a] by (intro unat_ucast_small) simp
  have "unat ((ucast ?f :: u64) * 100) = min (unat (heap_free_bytes i)) 102400 * 100"
    by (subst unat_mult_small) (simp_all add: u f)
  then have "unat ((ucast ?f :: u64) * 100 div ucast HEAP_TOTAL_BYTES)
      = min (unat (heap_free_bytes i)) 102400 * 100 div 102400"
    by (simp add: unat_div u) (simp add: HEAP_TOTAL_BYTES_def)
  then have "heap_pct_free i = of_nat (min (unat (heap_free_bytes i)) 102400 * 100 div 102400)"
    unfolding heap_pct_free_def Let_def by (rule ucast_of_unat)
  then show ?thesis by (simp add: unat_of_nat_small)
qed

text \<open>The thresholds on the heap, as bytes.\<close>

lemma heap_pct_free_le: "unat (heap_pct_free i) \<le> 100"
  by (simp add: unat_heap_pct_free)

lemma heap_pct_free_less_iff:
  assumes "0 < n" "n \<le> 100"
  shows "unat (heap_pct_free i) < n \<longleftrightarrow> unat (heap_free_bytes i) < 1024 * n"
proof -
  have "unat (heap_pct_free i) < n \<longleftrightarrow> min (unat (heap_free_bytes i)) 102400 < 1024 * n"
    by (simp add: unat_heap_pct_free div_less_iff_less_mult mult.commute)
  also have "\<dots> \<longleftrightarrow> unat (heap_free_bytes i) < 1024 * n" using assms(2) by auto
  finally show ?thesis .
qed

lemma pct_less_iff:
  "heap_pct_free i < 30 \<longleftrightarrow> unat (heap_free_bytes i) < 30720"
  "70 < heap_pct_free i \<longleftrightarrow> 72704 \<le> unat (heap_free_bytes i)"
  "60 < heap_pct_free i \<longleftrightarrow> 62464 \<le> unat (heap_free_bytes i)"
  "50 < heap_pct_free i \<longleftrightarrow> 52224 \<le> unat (heap_free_bytes i)"
  "40 < heap_pct_free i \<longleftrightarrow> 41984 \<le> unat (heap_free_bytes i)"
  using heap_pct_free_less_iff [of 30 i] heap_pct_free_less_iff [of 71 i]
    heap_pct_free_less_iff [of 61 i] heap_pct_free_less_iff [of 51 i] heap_pct_free_less_iff [of 41 i]
  by (simp_all add: word_less_nat_alt) linarith+

lemma memory_pressure_iff:
  "heap_free_bytes i < MEMORY_PRESSURE_FREE_BYTES \<longleftrightarrow> unat (heap_free_bytes i) < 20480"
  by (simp add: MEMORY_PRESSURE_FREE_BYTES_def word_less_nat_alt)

lemmas cond_eval_defs = eval_vibes_def eval_caffeinated_def eval_existential_def eval_peckish_def
  eval_haunted_def

text \<open>
  Below the MemoryPressure threshold Peckish is hungry and Vibes are bad. The threshold is
  below the percentage at which both change anyway, so the check in \<open>eval_peckish\<close>
  decides nothing.
\<close>

definition peckish_by_percent :: "CustomCondInputs \<Rightarrow> CustomCond" where
  "peckish_by_percent i =
     (if heap_pct_free i > 60 then
        \<lparr>cc_status = CondFalse, cc_reason = ''Sated'', cc_message = ''heap is plenty''\<rparr>
      else if heap_pct_free i > 40 then
        \<lparr>cc_status = CondTrue, cc_reason = ''CouldGoForASnack'',
         cc_message = ''could go for a snack''\<rparr>
      else
        \<lparr>cc_status = CondTrue, cc_reason = ''Hungry'', cc_message = ''would eat a byte right now''\<rparr>)"

text \<open>How far the node has come to terms with itself.\<close>

definition existential_level :: "CustomCond \<Rightarrow> nat" where
  "existential_level c =
     (if cc_reason c = ''Innocent'' then 0 else if cc_reason c = ''Questioning'' then 1
      else if cc_reason c = ''Accepting'' then 2 else 3)"

text \<open>The table of the reasons each evaluator can give, with the status of each.\<close>

definition reason_table :: "(string \<times> CondStatus) list" where
  "reason_table =
     [(''Cursed'', CondFalse), (''Off'', CondFalse), (''Immaculate'', CondTrue),
      (''Cromulent'', CondTrue), (''Dissociating'', CondUnknown),
      (''FreshlyBrewed'', CondTrue), (''Decaf'', CondFalse),
      (''Transcendent'', CondTrue), (''Accepting'', CondTrue), (''Questioning'', CondTrue),
      (''Innocent'', CondFalse), (''Hungry'', CondTrue), (''Sated'', CondFalse),
      (''CouldGoForASnack'', CondTrue), (''NewGhost'', CondTrue), (''TimeSlipped'', CondTrue),
      (''Calm'', CondFalse)]"

lemma eval_in_table:
  "(cc_reason (eval_vibes i), cc_status (eval_vibes i)) \<in> set reason_table"
  "(cc_reason (eval_caffeinated i), cc_status (eval_caffeinated i)) \<in> set reason_table"
  "(cc_reason (eval_existential i), cc_status (eval_existential i)) \<in> set reason_table"
  "(cc_reason (eval_peckish i), cc_status (eval_peckish i)) \<in> set reason_table"
  "(cc_reason (eval_haunted i), cc_status (eval_haunted i)) \<in> set reason_table"
  unfolding cond_eval_defs Let_def by (simp_all add: reason_table_def)

section \<open>Properties\<close>

text \<open>C22. The time kept with a condition is the time of the observation that changed it last: after
  any observations that leave another value, then one of \<open>v\<close> at time \<open>t\<close>, and then any
  observations of the same value, the state has the value \<open>v\<close> and the time \<open>t\<close>.\<close>

theorem condition_transition_time:
  assumes "cs_value (observe_all CondState_observe xs s) \<noteq> v" "list_all (\<lambda>(w, u). w = v) ys"
  shows "observe_all CondState_observe (xs @ (v, t) # ys) s
    = \<lparr>cs_value = v, cs_transitioned_at = t\<rparr>"
proof -
  let ?s = "observe_all CondState_observe (xs @ (v, t) # ys) s"
  have "cs_value ?s = v"
  proof (cases ys rule: rev_cases)
    case Nil
    then show ?thesis by (simp add: cond_slot.observe_all_value)
  next
    case (snoc zs z)
    with assms(2) obtain u where "z = (v, u)" by (cases z) auto
    with snoc cond_slot.observe_all_value [of "xs @ (v, t) # zs" v u s] show ?thesis by simp
  qed
  with cond_slot.observe_all_time [OF assms, of t] show ?thesis by (cases ?s) simp
qed

lemma condition_transition_time_witness:
  "observe_all CondState_observe [(False, 10), (True, 20), (True, 30), (True, 40)] (CondState_new False 5)
    = \<lparr>cs_value = True, cs_transitioned_at = 20\<rparr>"
  using condition_transition_time [of "[(False, 10)]" "CondState_new False 5" True "[(True, 30), (True, 40)]" 20]
  by (simp add: CondState_new_def CondState_observe_def)

text \<open>The same for the custom conditions, which start as Unknown: the time kept is that of the
  last change of the status, for every sequence of observations.\<close>

lemma custom_transition_time:
  assumes "ccs_status (observe_all CustomCondState_observe xs (CustomCondState_new t0)) \<noteq> v"
    and "list_all (\<lambda>(w, u). w = v) ys"
  shows "ccs_transitioned_at
    (observe_all CustomCondState_observe (xs @ (v, t) # ys) (CustomCondState_new t0)) = t"
  by (rule custom_slot.observe_all_time [OF assms])

text \<open>The percentage of free heap is exact and never above 100, on the 64-bit arithmetic of the
  code, also for a reading above the total.\<close>

lemma heap_pct_free_exact:
  "unat (heap_pct_free i) = min (unat (heap_free_bytes i)) 102400 * 100 div 102400 \<and>
   unat (heap_pct_free i) \<le> 100"
  using unat_heap_pct_free heap_pct_free_le by blast

text \<open>The check of the MemoryPressure threshold in front of \<open>eval_peckish\<close> decides nothing: the
  percentages alone give the same condition for every input.\<close>

lemma peckish_check_redundant: "eval_peckish i = peckish_by_percent i"
  by (auto simp: eval_peckish_def peckish_by_percent_def Let_def pct_less_iff memory_pressure_iff)

text \<open>Under MemoryPressure the custom conditions agree with it: Peckish is True and hungry, and
  Vibes are False, whatever the other inputs are.\<close>

lemma memory_pressure_agrees:
  assumes "heap_free_bytes i < MEMORY_PRESSURE_FREE_BYTES"
  shows "cc_status (eval_peckish i) = CondTrue \<and> cc_reason (eval_peckish i) = ''Hungry'' \<and>
    cc_status (eval_vibes i) = CondFalse"
proof -
  have "heap_pct_free i < 30" using assms by (simp add: pct_less_iff memory_pressure_iff)
  with assms show ?thesis by (simp add: eval_peckish_def eval_vibes_def Let_def)
qed

definition starved :: CustomCondInputs where
  "starved = \<lparr>heap_free_bytes = 20479, uptime_secs = 100, wifi_reconnects_5min = 0,
     renewal_count = 1, bssid_changed = False, time_slipped = False\<rparr>"

text \<open>Existential only ever deepens: with more renewals the level is never lower, and the status
  is True exactly from the hundredth renewal on.\<close>

lemma existential_monotone:
  assumes "renewal_count i \<le> renewal_count j"
  shows "existential_level (eval_existential i) \<le> existential_level (eval_existential j) \<and>
    (cc_status (eval_existential i) = CondTrue \<longleftrightarrow> 100 \<le> renewal_count i)"
proof -
  have "renewal_count i < 100 \<Longrightarrow> renewal_count i < 1000" "renewal_count i < 1000 \<Longrightarrow> renewal_count i < 10000"
    by (auto elim: order.strict_trans)
  with assms show ?thesis
    by (auto simp: existential_level_def eval_existential_def not_le
        dest: order_trans order.strict_trans1 order.strict_trans2)
qed

text \<open>A reason says which status a condition has: every evaluator gives a pair of the table, and
  no reason is in the table with two statuses.\<close>

lemma reason_determines_status:
  "list_all (\<lambda>c. (cc_reason c, cc_status c) \<in> set reason_table)
     [eval_vibes i, eval_caffeinated i, eval_existential i, eval_peckish i, eval_haunted i] \<and>
   distinct (map fst reason_table)"
proof -
  have "distinct (map fst reason_table)" by code_simp
  then show ?thesis using eval_in_table by simp
qed

end
