(* ===== verification/Json.thy ===== *)
theory Json
  imports Rust_Text
begin

text \<open>
  The specification of the request bodies: JSON values and their compact rendering, with
  the escapes of RFC 8259. The firmware has no JSON library and writes its bodies from
  templates; \<open>Models\<close> proves that what a template writes is the rendering of a value.
\<close>

datatype json =
    JString string
  | JNumber nat
  | JArray "json list"
  | JObject "(string \<times> json) list"

definition json_escape_char :: "char \<Rightarrow> string" where
  \<open>json_escape_char c =
     (if c = CHR 0x22 \<or> c = CHR 0x5C then [CHR 0x5C, c]
      else if (of_char c :: nat) < 32
      then [CHR 0x5C, CHR ''u'', CHR ''0'', CHR ''0''] @ pad_zero 2 (hex (of_char c))
      else [c])\<close>

definition json_escape :: "string \<Rightarrow> string" where
  "json_escape s = concat (map json_escape_char s)"

definition json_quote :: "string \<Rightarrow> string" where
  "json_quote s = CHR 0x22 # json_escape s @ [CHR 0x22]"

fun json_commas :: "string list \<Rightarrow> string" where
  "json_commas [] = []"
| "json_commas [x] = x"
| "json_commas (x # y # ys) = x @ CHR '','' # json_commas (y # ys)"

fun json_render :: "json \<Rightarrow> string" where
  "json_render (JString s) = json_quote s"
| "json_render (JNumber n) = dec n"
| "json_render (JArray xs) = CHR ''['' # json_commas (map json_render xs) @ [CHR '']'']"
| "json_render (JObject fs) =
     CHR ''{'' # json_commas (map (\<lambda>(k, v). json_quote k @ CHR '':'' # json_render v) fs) @ [CHR ''}'']"

text \<open>A text that needs no escape.\<close>

definition json_plain_char :: "char \<Rightarrow> bool" where
  "json_plain_char c \<longleftrightarrow> c \<noteq> CHR 0x22 \<and> c \<noteq> CHR 0x5C \<and> \<not> (of_char c :: nat) < 32"

definition json_plain :: "string \<Rightarrow> bool" where
  "json_plain s \<longleftrightarrow> list_all json_plain_char s"

lemma json_plain_Nil [simp]: "json_plain []"
  by (simp add: json_plain_def)

lemma json_plain_Cons [simp]: "json_plain (c # s) \<longleftrightarrow> json_plain_char c \<and> json_plain s"
  by (simp add: json_plain_def)

lemma json_plain_append [simp]: "json_plain (s @ t) \<longleftrightarrow> json_plain s \<and> json_plain t"
  by (simp add: json_plain_def)

lemma json_escape_plain_char: "json_plain_char c \<Longrightarrow> json_escape_char c = [c]"
  by (simp add: json_plain_char_def json_escape_char_def)

lemma json_escape_plain: "json_plain s \<Longrightarrow> json_escape s = s"
  by (induction s) (simp_all add: json_escape_def json_escape_plain_char)

lemma json_quote_plain [wire_simps]:
  "json_plain s \<Longrightarrow> json_quote s = CHR 0x22 # s @ [CHR 0x22]"
  by (simp add: json_quote_def json_escape_plain)

lemma json_plain_digits: "list_all is_digit ds \<Longrightarrow> json_plain ds"
  by (auto simp: json_plain_def json_plain_char_def list_all_iff is_digit_def)

lemma json_plain_pad_dec [simp]: "json_plain (pad_zero w (dec n))"
  by (intro json_plain_digits pad_zero_digits dec_digits)

lemma json_plain_dec [simp]: "json_plain (dec n)"
  by (intro json_plain_digits dec_digits)

lemma json_commas_append:
  "xs \<noteq> [] \<Longrightarrow> ys \<noteq> [] \<Longrightarrow>
    json_commas (xs @ ys) = json_commas xs @ CHR '','' # json_commas ys"
proof (induction xs rule: json_commas.induct)
  case (2 x)
  then show ?case by (cases ys) auto
qed auto

end
