(* ===== verification/Models.thy ===== *)
theory Models
  imports ApiPath Conditions Wallclock Json
begin

text \<open>
  \<open>src/k8s/models.rs\<close>: the request bodies. Each \<open>write_json\<close> appends to a buffer of
  the capacity its signature has. The \<open>*_pieces\<close> definitions hold the literal and the
  formatted pieces of one \<open>write!\<close> in their order.
\<close>


record CustomCondEntry =
  ce_name :: string
  ce_current :: CustomCond
  ce_transitioned_at :: u64

section \<open>The Node resource\<close>

record NodeRegistration =
  nr_ip :: Ipv4Addr
  nr_now_unix :: u64

definition ip_mac :: "Ipv4Addr \<Rightarrow> u64" where
  "ip_mac o4 = (case o4 of (a, b, c, d) \<Rightarrow>
     push_bit 24 (ucast a) OR push_bit 16 (ucast b) OR push_bit 8 (ucast c) OR ucast d)"

definition NodeRegistration_pieces :: "build_env \<Rightarrow> Ipv4Addr \<Rightarrow> string \<Rightarrow> string list" where
  \<open>NodeRegistration_pieces env ip ts =
     (let name = NODE_NAME env; (a, b, c, d) = ip in
      [''{"apiVersion":"v1","kind":"Node","metadata":{"name":"'', name,
       ''","labels":{"kubernetes.io/hostname":"'', name,
       ''","kubernetes.io/arch":"xtensa-lx7","kubernetes.io/os":"no_std",'' @
       ''"node.kubernetes.io/instance-type":"esp32-s3-r8","hardware":"esp32-s3",'' @
       ''"arch":"xtensa-lx7","node.specht.dev/cursed":"true"}},"spec":{},"status":{'' @
       ''"capacity":{"cpu":"240m","memory":"320Ki","pods":"1"},'' @
       ''"allocatable":{"cpu":"240m","memory":"320Ki","pods":"1"},'' @
       ''"nodeInfo":{"machineID":"picokubelet-'', name,
       ''","systemUUID":"00000000-0000-0000-0000-'', fmt_hex_padded 12 (ip_mac ip),
       ''","bootID":"00000000-0000-0000-0000-000000000001",'' @
       ''"kernelVersion":"esp-rs-no_std","osImage":"picokubelet on bare metal",'' @
       ''"containerRuntimeVersion":"lies://0.1.0","kubeletVersion":"v1.31.1-picokubelet",'' @
       ''"kubeProxyVersion":"v1.31.1-picokubelet","operatingSystem":"no_std",'' @
       ''"architecture":"xtensa-lx7"},"addresses":[{"type":"InternalIP","address":"'',
       fmt_display a, ''.'', fmt_display b, ''.'', fmt_display c, ''.'', fmt_display d,
       ''"},{"type":"Hostname","address":"'', name,
       ''"}],"daemonEndpoints":{"kubeletEndpoint":{"Port":10250}},"conditions":[{'' @
       ''"type":"Ready","status":"True","reason":"KubeletReady",'' @
       ''"message":"ESP32-S3 sips electrons but is here","lastHeartbeatTime":"'', ts,
       ''","lastTransitionTime":"'', ts,
       ''"},{"type":"MemoryPressure","status":"False","reason":"KubeletHasSufficientMemory",'' @
       ''"message":"more than zero bytes free","lastHeartbeatTime":"'', ts,
       ''","lastTransitionTime":"'', ts,
       ''"},{"type":"DiskPressure","status":"False","reason":"KubeletHasNoDiskPressure",'' @
       ''"message":"there is no disk","lastHeartbeatTime":"'', ts,
       ''","lastTransitionTime":"'', ts,
       ''"},{"type":"PIDPressure","status":"False","reason":"KubeletHasSufficientPID",'' @
       ''"message":"PIDs are also lies","lastHeartbeatTime":"'', ts,
       ''","lastTransitionTime":"'', ts, ''"}]}}''])\<close>

definition NodeRegistration_write_json ::
    "push_str \<Rightarrow> build_env \<Rightarrow> NodeRegistration \<Rightarrow> string \<Rightarrow> string option" where
  "NodeRegistration_write_json push env r out = do {
     ts \<leftarrow> fmt_rfc3339 push (nr_now_unix r) [];
     write_fmt push 2048 out (NodeRegistration_pieces env (nr_ip r) ts)
   }"

section \<open>The Lease resource\<close>

definition LeaseBody_pieces :: "build_env \<Rightarrow> string \<Rightarrow> string list" where
  \<open>LeaseBody_pieces env renew =
     (let name = NODE_NAME env in
      [''{"apiVersion":"coordination.k8s.io/v1","kind":"Lease","metadata":{"name":"'', name,
       ''","namespace":"kube-node-lease"},"spec":{"holderIdentity":"'', name,
       ''","leaseDurationSeconds":'', fmt_display LEASE_DURATION_SECS,
       '',"renewTime":"'', renew, ''"}}''])\<close>

definition LeaseBody_write_json ::
    "push_str \<Rightarrow> build_env \<Rightarrow> u64 \<Rightarrow> string \<Rightarrow> string option" where
  "LeaseBody_write_json push env renew_unix out = do {
     renew \<leftarrow> fmt_rfc3339 push renew_unix [];
     write_fmt push 512 out (LeaseBody_pieces env renew)
   }"

section \<open>The status patch\<close>

definition bool_status :: "bool \<Rightarrow> string" where
  "bool_status b = (if b then ''True'' else ''False'')"

definition NodeStatus_builtin_pieces ::
    "NodeCondTracker \<Rightarrow> string \<Rightarrow> string \<Rightarrow> string \<Rightarrow> string \<Rightarrow> string \<Rightarrow> string list" where
  \<open>NodeStatus_builtin_pieces t hb rt mt dt pt =
     (let mp_reason = (if cs_value (memory_pressure t) then ''KubeletHasInsufficientMemory''
                       else ''KubeletHasSufficientMemory'');
          mp_msg = (if cs_value (memory_pressure t) then ''free heap below threshold''
                    else ''more than zero bytes free'') in
      [''{"status":{"conditions":['' @ ''{"type":"Ready","status":"'', bool_status (cs_value (ready t)),
       ''","reason":"KubeletReady","message":"ESP32-S3 sips electrons but is here",'' @
       ''"lastHeartbeatTime":"'', hb, ''","lastTransitionTime":"'', rt,
       ''"},{"type":"MemoryPressure","status":"'', bool_status (cs_value (memory_pressure t)),
       ''","reason":"'', mp_reason, ''","message":"'', mp_msg,
       ''","lastHeartbeatTime":"'', hb, ''","lastTransitionTime":"'', mt,
       ''"},{"type":"DiskPressure","status":"'', bool_status (cs_value (disk_pressure t)),
       ''","reason":"KubeletHasNoDiskPressure","message":"there is no disk",'' @
       ''"lastHeartbeatTime":"'', hb, ''","lastTransitionTime":"'', dt,
       ''"},{"type":"PIDPressure","status":"'', bool_status (cs_value (pid_pressure t)),
       ''","reason":"KubeletHasSufficientPID","message":"PIDs are also lies",'' @
       ''"lastHeartbeatTime":"'', hb, ''","lastTransitionTime":"'', pt, ''"}''])\<close>

definition NodeStatus_custom_pieces :: "CustomCondEntry \<Rightarrow> string \<Rightarrow> string \<Rightarrow> string list" where
  \<open>NodeStatus_custom_pieces entry hb tt =
     ['',{"type":"'', ce_name entry,
      ''","status":"'', CondStatus_as_str (cc_status (ce_current entry)),
      ''","reason":"'', cc_reason (ce_current entry),
      ''","message":"'', cc_message (ce_current entry),
      ''","lastHeartbeatTime":"'', hb, ''","lastTransitionTime":"'', tt, ''"}'']\<close>

text \<open>The loop over the custom entries.\<close>

fun NodeStatus_write_custom ::
    "push_str \<Rightarrow> string \<Rightarrow> CustomCondEntry list \<Rightarrow> string \<Rightarrow> string option" where
  "NodeStatus_write_custom push hb [] out = Some out"
| "NodeStatus_write_custom push hb (entry # entries) out = do {
     tt \<leftarrow> fmt_rfc3339 push (ce_transitioned_at entry) [];
     out \<leftarrow> write_fmt push 3072 out (NodeStatus_custom_pieces entry hb tt);
     NodeStatus_write_custom push hb entries out
   }"

record NodeStatusPatch =
  nsp_tracker :: NodeCondTracker
  nsp_custom :: "CustomCondEntry list"
  nsp_heartbeat_unix :: u64

definition NodeStatusPatch_write_json ::
    "push_str \<Rightarrow> NodeStatusPatch \<Rightarrow> string \<Rightarrow> string option" where
  "NodeStatusPatch_write_json push p out = do {
     let t = nsp_tracker p;
     hb \<leftarrow> fmt_rfc3339 push (nsp_heartbeat_unix p) [];
     ready_t \<leftarrow> fmt_rfc3339 push (cs_transitioned_at (ready t)) [];
     mp_t \<leftarrow> fmt_rfc3339 push (cs_transitioned_at (memory_pressure t)) [];
     dp_t \<leftarrow> fmt_rfc3339 push (cs_transitioned_at (disk_pressure t)) [];
     pp_t \<leftarrow> fmt_rfc3339 push (cs_transitioned_at (pid_pressure t)) [];
     out \<leftarrow> write_fmt push 3072 out (NodeStatus_builtin_pieces t hb ready_t mp_t dp_t pp_t);
     out \<leftarrow> NodeStatus_write_custom push hb (nsp_custom p) out;
     push 3072 out '']}}''
   }"

section \<open>The heap annotation patch\<close>

definition HeapAnnotation_pieces :: "usize \<Rightarrow> string list" where
  \<open>HeapAnnotation_pieces free_bytes =
     [''{"metadata":{"annotations":{"node.specht.dev/heap-bytes-free":"'', fmt_display free_bytes,
      ''"}}}'']\<close>

definition HeapAnnotationPatch_write_json :: "push_str \<Rightarrow> usize \<Rightarrow> string \<Rightarrow> string option" where
  "HeapAnnotationPatch_write_json push free_bytes out =
     write_fmt push 256 out (HeapAnnotation_pieces free_bytes)"


section \<open>The objects the bodies stand for\<close>

definition condition_json :: "string \<Rightarrow> string \<Rightarrow> string \<Rightarrow> string \<Rightarrow> string \<Rightarrow> string \<Rightarrow> json" where
  "condition_json ty status reason message hb tt = JObject
     [(''type'', JString ty), (''status'', JString status), (''reason'', JString reason),
      (''message'', JString message), (''lastHeartbeatTime'', JString hb),
      (''lastTransitionTime'', JString tt)]"

definition lease_json :: "string \<Rightarrow> string \<Rightarrow> json" where
  "lease_json name renew = JObject
     [(''apiVersion'', JString ''coordination.k8s.io/v1''), (''kind'', JString ''Lease''),
      (''metadata'', JObject
         [(''name'', JString name), (''namespace'', JString ''kube-node-lease'')]),
      (''spec'', JObject
         [(''holderIdentity'', JString name), (''leaseDurationSeconds'', JNumber 40),
          (''renewTime'', JString renew)])]"

definition resources_json :: json where
  "resources_json = JObject
     [(''cpu'', JString ''240m''), (''memory'', JString ''320Ki''), (''pods'', JString ''1'')]"

definition initial_conditions_json :: "string \<Rightarrow> json list" where
  "initial_conditions_json ts =
     [condition_json ''Ready'' ''True'' ''KubeletReady'' ''ESP32-S3 sips electrons but is here'' ts ts,
      condition_json ''MemoryPressure'' ''False'' ''KubeletHasSufficientMemory''
        ''more than zero bytes free'' ts ts,
      condition_json ''DiskPressure'' ''False'' ''KubeletHasNoDiskPressure'' ''there is no disk'' ts ts,
      condition_json ''PIDPressure'' ''False'' ''KubeletHasSufficientPID'' ''PIDs are also lies'' ts ts]"

definition dotted_quad :: "Ipv4Addr \<Rightarrow> string" where
  "dotted_quad ip = (case ip of (a, b, c, d) \<Rightarrow>
     dec (unat a) @ ''.'' @ dec (unat b) @ ''.'' @ dec (unat c) @ ''.'' @ dec (unat d))"

definition node_json :: "string \<Rightarrow> Ipv4Addr \<Rightarrow> string \<Rightarrow> json" where
  "node_json name ip ts = JObject
     [(''apiVersion'', JString ''v1''), (''kind'', JString ''Node''),
      (''metadata'', JObject
         [(''name'', JString name),
          (''labels'', JObject
             [(''kubernetes.io/hostname'', JString name),
              (''kubernetes.io/arch'', JString ''xtensa-lx7''),
              (''kubernetes.io/os'', JString ''no_std''),
              (''node.kubernetes.io/instance-type'', JString ''esp32-s3-r8''),
              (''hardware'', JString ''esp32-s3''), (''arch'', JString ''xtensa-lx7''),
              (''node.specht.dev/cursed'', JString ''true'')])]),
      (''spec'', JObject []),
      (''status'', JObject
         [(''capacity'', resources_json), (''allocatable'', resources_json),
          (''nodeInfo'', JObject
             [(''machineID'', JString (''picokubelet-'' @ name)),
              (''systemUUID'', JString (''00000000-0000-0000-0000-'' @ fmt_hex_padded 12 (ip_mac ip))),
              (''bootID'', JString ''00000000-0000-0000-0000-000000000001''),
              (''kernelVersion'', JString ''esp-rs-no_std''),
              (''osImage'', JString ''picokubelet on bare metal''),
              (''containerRuntimeVersion'', JString ''lies://0.1.0''),
              (''kubeletVersion'', JString ''v1.31.1-picokubelet''),
              (''kubeProxyVersion'', JString ''v1.31.1-picokubelet''),
              (''operatingSystem'', JString ''no_std''), (''architecture'', JString ''xtensa-lx7'')]),
          (''addresses'', JArray
             [JObject [(''type'', JString ''InternalIP''), (''address'', JString (dotted_quad ip))],
              JObject [(''type'', JString ''Hostname''), (''address'', JString name)]]),
          (''daemonEndpoints'', JObject [(''kubeletEndpoint'', JObject [(''Port'', JNumber 10250)])]),
          (''conditions'', JArray (initial_conditions_json ts))])]"

definition builtin_conditions_json ::
    "NodeCondTracker \<Rightarrow> string \<Rightarrow> string \<Rightarrow> string \<Rightarrow> string \<Rightarrow> string \<Rightarrow> json list" where
  "builtin_conditions_json t hb rt mt dt pt =
     [condition_json ''Ready'' (bool_status (cs_value (ready t))) ''KubeletReady''
        ''ESP32-S3 sips electrons but is here'' hb rt,
      (if cs_value (memory_pressure t)
       then condition_json ''MemoryPressure'' ''True'' ''KubeletHasInsufficientMemory''
         ''free heap below threshold'' hb mt
       else condition_json ''MemoryPressure'' ''False'' ''KubeletHasSufficientMemory''
         ''more than zero bytes free'' hb mt),
      condition_json ''DiskPressure'' (bool_status (cs_value (disk_pressure t)))
        ''KubeletHasNoDiskPressure'' ''there is no disk'' hb dt,
      condition_json ''PIDPressure'' (bool_status (cs_value (pid_pressure t)))
        ''KubeletHasSufficientPID'' ''PIDs are also lies'' hb pt]"

text \<open>The timestamp that stands for a number of seconds.\<close>

definition timestamp :: "u64 \<Rightarrow> string" where
  "timestamp unix = concat (rfc3339_pieces unix)"

definition entry_json :: "string \<Rightarrow> CustomCondEntry \<Rightarrow> json" where
  "entry_json hb entry =
     condition_json (ce_name entry) (CondStatus_as_str (cc_status (ce_current entry)))
       (cc_reason (ce_current entry)) (cc_message (ce_current entry)) hb
       (timestamp (ce_transitioned_at entry))"

definition status_json :: "NodeStatusPatch \<Rightarrow> json" where
  "status_json p =
     (let t = nsp_tracker p; hb = timestamp (nsp_heartbeat_unix p) in JObject
      [(''status'', JObject [(''conditions'', JArray
         (builtin_conditions_json t hb (timestamp (cs_transitioned_at (ready t)))
            (timestamp (cs_transitioned_at (memory_pressure t)))
            (timestamp (cs_transitioned_at (disk_pressure t)))
            (timestamp (cs_transitioned_at (pid_pressure t)))
          @ map (entry_json hb) (nsp_custom p)))])])"

definition annotation_json :: "usize \<Rightarrow> json" where
  "annotation_json free = JObject
     [(''metadata'', JObject [(''annotations'', JObject
        [(''node.specht.dev/heap-bytes-free'', JString (dec (unat free)))])])]"

section \<open>A template writes the rendering of its object\<close>

lemma json_plain_concat: "list_all json_plain ss \<Longrightarrow> json_plain (concat ss)"
  by (induction ss) simp_all

lemma json_plain_timestamp [simp]: "json_plain (timestamp unix)"
proof -
  have "json_plain (fmt_zero_padded w x)" for w and x :: u32
    by (simp add: fmt_zero_padded_def)
  moreover have "json_plain (fmt_zero_padded_signed w x)" for w and x :: i32
    by (simp add: fmt_zero_padded_signed_def json_plain_char_def)
  moreover have "json_plain ''-''" "json_plain ''T''" "json_plain '':''" "json_plain ''.000000Z''"
    by (simp_all add: json_plain_char_def)
  ultimately show ?thesis
    unfolding timestamp_def rfc3339_pieces_def Let_def
    by (intro json_plain_concat) (simp split: prod.splits)
qed

lemma json_plain_dotted_quad [simp]: "json_plain (dotted_quad ip)"
  by (simp add: dotted_quad_def json_plain_char_def split: prod.splits)


lemmas template_simps = json_quote_plain json_plain_char_def condition_json_def fmt_display_def

lemma LeaseBody_json:
  assumes "json_plain (NODE_NAME env)"
  shows "concat (LeaseBody_pieces env (timestamp unix))
    = json_render (lease_json (NODE_NAME env) (timestamp unix))"
  using assms
  by (simp add: LeaseBody_pieces_def lease_json_def Let_def template_simps LEASE_DURATION_SECS_def)

lemma dec_10250: "dec 10250 = ''10250''"
  by (simp add: dec.simps digit_char_def char_of_eq_iff)

lemma json_plain_hex [simp]: "json_plain (hex n)"
proof (induction n rule: hex.induct)
  case (1 n)
  have "json_plain_char (hex_char m)" if "m < 16" for m
    using that by (auto simp: hex_char_def json_plain_char_def char_of_eq_iff take_bit_nat_eq_self)
  with 1 show ?case by (subst hex.simps) auto
qed

lemma json_plain_fmt_hex [simp]: "json_plain (fmt_hex_padded w x)"
proof -
  have "json_plain (replicate n CHR ''0'')" for n
    by (induction n) (simp_all add: json_plain_char_def)
  then show ?thesis by (simp add: fmt_hex_padded_def pad_zero_def)
qed

lemma NodeRegistration_json:
  assumes "json_plain (NODE_NAME env)"
  shows "concat (NodeRegistration_pieces env ip (timestamp unix))
    = json_render (node_json (NODE_NAME env) ip (timestamp unix))"
  using assms
  by (simp add: NodeRegistration_pieces_def node_json_def initial_conditions_json_def
      resources_json_def dotted_quad_def Let_def template_simps dec_10250 split: prod.splits)

lemma HeapAnnotation_json:
  "concat (HeapAnnotation_pieces free) = json_render (annotation_json free)"
  by (simp add: HeapAnnotation_pieces_def annotation_json_def template_simps)


text \<open>The status patch is the four conditions of every node and the custom ones after them.\<close>

lemma bool_status_plain [simp]: "json_plain (bool_status b)"
  by (simp add: bool_status_def json_plain_char_def)

definition condition_text ::
    "string \<Rightarrow> string \<Rightarrow> string \<Rightarrow> string \<Rightarrow> string \<Rightarrow> string \<Rightarrow> string" where
  \<open>condition_text ty status reason message hb tt =
     ''{"type":"'' @ ty @ ''","status":"'' @ status @ ''","reason":"'' @ reason @
     ''","message":"'' @ message @ ''","lastHeartbeatTime":"'' @ hb @
     ''","lastTransitionTime":"'' @ tt @ ''"}''\<close>

lemma condition_text_json:
  assumes "json_plain ty" "json_plain status" "json_plain reason" "json_plain message"
    "json_plain hb" "json_plain tt"
  shows "json_render (condition_json ty status reason message hb tt)
    = condition_text ty status reason message hb tt"
  using assms by (simp add: condition_text_def template_simps)

lemma builtin_pieces_text:
  \<open>concat (NodeStatus_builtin_pieces t hb rt mt dt pt)
    = ''{"status":{"conditions":['' @
      condition_text ''Ready'' (bool_status (cs_value (ready t))) ''KubeletReady''
        ''ESP32-S3 sips electrons but is here'' hb rt @ '','' @
      (if cs_value (memory_pressure t)
       then condition_text ''MemoryPressure'' ''True'' ''KubeletHasInsufficientMemory''
         ''free heap below threshold'' hb mt
       else condition_text ''MemoryPressure'' ''False'' ''KubeletHasSufficientMemory''
         ''more than zero bytes free'' hb mt) @ '','' @
      condition_text ''DiskPressure'' (bool_status (cs_value (disk_pressure t)))
        ''KubeletHasNoDiskPressure'' ''there is no disk'' hb dt @ '','' @
      condition_text ''PIDPressure'' (bool_status (cs_value (pid_pressure t)))
        ''KubeletHasSufficientPID'' ''PIDs are also lies'' hb pt\<close>
  unfolding NodeStatus_builtin_pieces_def Let_def condition_text_def
  by (cases "cs_value (memory_pressure t)")
    (simp_all only: concat.simps append.simps append_assoc bool_status_def if_True if_False append_Nil2)

lemma builtin_conditions_text:
  assumes "json_plain hb" "json_plain rt" "json_plain mt" "json_plain dt" "json_plain pt"
  shows "concat (NodeStatus_builtin_pieces t hb rt mt dt pt)
    = ''{'' @ json_quote ''status'' @ '':{'' @ json_quote ''conditions'' @ '':['' @
      json_commas (map json_render (builtin_conditions_json t hb rt mt dt pt))"
proof -
  have plain: "json_plain ''Ready''" "json_plain ''KubeletReady''"
    "json_plain ''ESP32-S3 sips electrons but is here''" "json_plain ''MemoryPressure''"
    "json_plain ''KubeletHasInsufficientMemory''" "json_plain ''KubeletHasSufficientMemory''"
    "json_plain ''free heap below threshold''" "json_plain ''more than zero bytes free''"
    "json_plain ''DiskPressure''" "json_plain ''KubeletHasNoDiskPressure''"
    "json_plain ''there is no disk''" "json_plain ''PIDPressure''"
    "json_plain ''KubeletHasSufficientPID''" "json_plain ''PIDs are also lies''"
    "json_plain ''True''" "json_plain ''False''"
    by code_simp+
  show ?thesis
    unfolding builtin_conditions_json_def
    by (cases "cs_value (memory_pressure t)")
      (simp_all only: builtin_pieces_text condition_text_json plain assms bool_status_plain
        list.map json_commas.simps if_True if_False, simp_all add: json_quote_plain json_plain_char_def)
qed

definition entry_plain :: "CustomCondEntry \<Rightarrow> bool" where
  "entry_plain entry \<longleftrightarrow> json_plain (ce_name entry) \<and>
     json_plain (cc_reason (ce_current entry)) \<and> json_plain (cc_message (ce_current entry))"

lemma CondStatus_plain [simp]: "json_plain (CondStatus_as_str s)"
  by (cases s) (simp_all add: json_plain_char_def)

lemma custom_condition_text:
  assumes "entry_plain entry" "json_plain hb"
  shows "concat (NodeStatus_custom_pieces entry hb (timestamp (ce_transitioned_at entry)))
    = CHR '','' # json_render (entry_json hb entry)"
  using assms
  by (simp add: NodeStatus_custom_pieces_def entry_json_def entry_plain_def template_simps)

definition custom_text :: "string \<Rightarrow> CustomCondEntry list \<Rightarrow> string" where
  "custom_text hb entries = concat (map (\<lambda>e. concat
     (NodeStatus_custom_pieces e hb (timestamp (ce_transitioned_at e)))) entries)"

lemma custom_text_commas:
  assumes "list_all entry_plain entries" "json_plain hb" "xs \<noteq> []"
  shows "json_commas xs @ custom_text hb entries
    = json_commas (xs @ map (json_render \<circ> entry_json hb) entries)"
  using assms(1,3)
proof (induction entries arbitrary: xs)
  case (Cons e es)
  then show ?case
    using Cons.IH [of "xs @ [json_render (entry_json hb e)]"] assms(2)
    by (simp add: custom_text_def custom_condition_text json_commas_append)
qed (simp add: custom_text_def)

definition status_text :: "NodeStatusPatch \<Rightarrow> string" where
  "status_text p =
     (let t = nsp_tracker p; hb = timestamp (nsp_heartbeat_unix p) in
      concat (NodeStatus_builtin_pieces t hb (timestamp (cs_transitioned_at (ready t)))
        (timestamp (cs_transitioned_at (memory_pressure t)))
        (timestamp (cs_transitioned_at (disk_pressure t)))
        (timestamp (cs_transitioned_at (pid_pressure t))))
      @ custom_text hb (nsp_custom p) @ '']}}'')"

lemma status_text_json:
  assumes "list_all entry_plain (nsp_custom p)"
  shows "status_text p = json_render (status_json p)"
proof -
  let ?t = "nsp_tracker p" and ?hb = "timestamp (nsp_heartbeat_unix p)"
  define bs where "bs = builtin_conditions_json ?t ?hb (timestamp (cs_transitioned_at (ready ?t)))
    (timestamp (cs_transitioned_at (memory_pressure ?t)))
    (timestamp (cs_transitioned_at (disk_pressure ?t)))
    (timestamp (cs_transitioned_at (pid_pressure ?t)))"
  have "json_commas (map json_render bs) @ custom_text ?hb (nsp_custom p)
    = json_commas (map json_render (bs @ map (entry_json ?hb) (nsp_custom p)))"
    using custom_text_commas [OF assms, of ?hb "map json_render bs"]
    by (simp add: bs_def builtin_conditions_json_def comp_def)
  then show ?thesis
    by (simp add: status_text_def status_json_def Let_def builtin_conditions_text bs_def [symmetric])
qed

section \<open>Whether a body fits its buffer\<close>

lemma length_timestamp: "length (timestamp unix) \<le> 34"
  unfolding timestamp_def by (rule length_rfc3339_pieces)

lemma length_LeaseBody:
  "length (concat (LeaseBody_pieces env renew)) = 177 + 2 * length (NODE_NAME env) + length renew"
  by (simp add: LeaseBody_pieces_def Let_def fmt_display_def LEASE_DURATION_SECS_def dec.simps)


lemma length_hex_le: "n < 16 ^ k \<Longrightarrow> 0 < k \<Longrightarrow> length (hex n) \<le> k"
proof (induction k arbitrary: n)
  case (Suc k)
  show ?case
  proof (cases "n < 16")
    case True
    then show ?thesis by (subst hex.simps) simp
  next
    case False
    with Suc.prems have "0 < k" by (cases k) auto
    moreover from Suc.prems have "n div 16 < 16 ^ k"
      by (simp add: less_mult_imp_div_less mult.commute)
    ultimately have "length (hex (n div 16)) \<le> k" using Suc.IH by blast
    with False show ?thesis by (subst hex.simps) simp
  qed
qed simp

lemma unat_ip_mac: "unat (ip_mac ip) < 2 ^ 32"
proof -
  obtain a b c d where ip: "ip = (a, b, c, d)" by (cases ip)
  have "ip_mac ip = take_bit 32 (ip_mac ip)"
    by (rule bit_word_eqI)
      (auto simp: ip_mac_def ip bit_simps dest: bit_imp_le_length)
  then have "unat (ip_mac ip) = take_bit 32 (unat (ip_mac ip))"
    by (metis unsigned_take_bit_eq)
  also have "\<dots> < 2 ^ 32" by (rule take_bit_nat_less_exp)
  finally show ?thesis .
qed

lemma length_mac: "length (fmt_hex_padded 12 (ip_mac ip)) = 12"
  using length_hex_le [of "unat (ip_mac ip)" 8] unat_ip_mac [of ip]
  by (simp add: fmt_hex_padded_def length_pad_zero)

lemma length_octet: "length (dec (unat (x :: u8))) \<le> 3"
  using unat_less [of x] by (intro length_dec_le) simp_all

lemma length_dotted_quad: "length (dotted_quad ip) \<le> 15"
proof -
  obtain a b c d where ip: "ip = (a, b, c, d)" by (cases ip)
  show ?thesis
    using length_octet [of a] length_octet [of b] length_octet [of c] length_octet [of d]
    by (simp add: dotted_quad_def ip)
qed

lemma length_dotted_quad_ge: "7 \<le> length (dotted_quad ip)"
proof -
  obtain a b c d where ip: "ip = (a, b, c, d)" by (cases ip)
  have "1 \<le> length (dec n)" for n by (cases "dec n") simp_all
  from this [of "unat a"] this [of "unat b"] this [of "unat c"] this [of "unat d"]
  show ?thesis by (simp add: dotted_quad_def ip)
qed

text \<open>The bytes of the text of a Node object beyond its names and its address.\<close>

lemma length_NodeRegistration:
  "length (concat (NodeRegistration_pieces env ip ts))
    = 1572 + 4 * length (NODE_NAME env) + length (dotted_quad ip) + 8 * length ts"
proof -
  obtain a b c d where ip: "ip = (a, b, c, d)" by (cases ip)
  show ?thesis
    using length_mac [of ip]
    by (simp add: NodeRegistration_pieces_def Let_def dotted_quad_def fmt_display_def ip)
qed

lemma length_builtin:
  "length (concat (NodeStatus_builtin_pieces t hb rt mt dt pt)) \<le>
    657 + 4 * length hb + length rt + length mt + length dt + length pt"
  by (simp add: NodeStatus_builtin_pieces_def Let_def bool_status_def)

definition entry_size :: "CustomCondEntry \<Rightarrow> nat" where
  "entry_size e = length (ce_name e) + length (CondStatus_as_str (cc_status (ce_current e)))
     + length (cc_reason (ce_current e)) + length (cc_message (ce_current e))"

lemma length_custom:
  "length (concat (NodeStatus_custom_pieces e hb tt)) = 96 + entry_size e + length hb + length tt"
  by (simp add: NodeStatus_custom_pieces_def entry_size_def)

lemma length_custom_text:
  assumes "list_all (\<lambda>e. entry_size e \<le> n) entries" "length hb \<le> 34"
  shows "length (custom_text hb entries) \<le> length entries * (164 + n)"
  using assms(1)
proof (induction entries)
  case (Cons e es)
  have "length (timestamp (ce_transitioned_at e)) \<le> 34" by (rule length_timestamp)
  with Cons assms(2) show ?case by (simp add: custom_text_def length_custom)
qed (simp add: custom_text_def)

lemma length_HeapAnnotation: "length (concat (HeapAnnotation_pieces free)) \<le> 77"
proof -
  have "length (dec (unat free)) \<le> 10"
    using unat_less [of free] by (intro length_dec_le) simp_all
  then show ?thesis by (simp add: HeapAnnotation_pieces_def fmt_display_def)
qed

text \<open>Five entries of the size the evaluators give fit with the four built-in conditions.\<close>

lemma length_status_text:
  assumes "list_all (\<lambda>e. entry_size e \<le> 70) (nsp_custom p)" "length (nsp_custom p) \<le> 5"
  shows "length (status_text p) \<le> 3072"
proof -
  let ?t = "nsp_tracker p" and ?hb = "timestamp (nsp_heartbeat_unix p)"
  note le = length_timestamp [of "nsp_heartbeat_unix p"]
    length_timestamp [of "cs_transitioned_at (ready ?t)"]
    length_timestamp [of "cs_transitioned_at (memory_pressure ?t)"]
    length_timestamp [of "cs_transitioned_at (disk_pressure ?t)"]
    length_timestamp [of "cs_transitioned_at (pid_pressure ?t)"]
  have "length (custom_text ?hb (nsp_custom p)) \<le> length (nsp_custom p) * 234"
    using length_custom_text [OF assms(1) le(1)] by simp
  moreover have "length (nsp_custom p) * 234 \<le> 5 * 234"
    using assms(2) by (intro mult_right_mono) simp_all
  ultimately show ?thesis
    using length_builtin [of ?t ?hb "timestamp (cs_transitioned_at (ready ?t))"
        "timestamp (cs_transitioned_at (memory_pressure ?t))"
        "timestamp (cs_transitioned_at (disk_pressure ?t))"
        "timestamp (cs_transitioned_at (pid_pressure ?t))"] le
    unfolding status_text_def Let_def length_append by simp
qed

section \<open>What the serialisers return\<close>

context bounded_buffer
begin

lemma fmt_timestamp: "fmt_rfc3339 push unix [] = Some (timestamp unix)"
  by (simp add: fmt_rfc3339_eq timestamp_def)

lemma LeaseBody_write:
  "LeaseBody_write_json push env unix [] =
    (let text = concat (LeaseBody_pieces env (timestamp unix))
     in if length text \<le> 512 then Some text else None)"
  by (simp add: LeaseBody_write_json_def fmt_timestamp write_fmt_eq Let_def)

lemma NodeRegistration_write:
  "NodeRegistration_write_json push env r [] =
    (let text = concat (NodeRegistration_pieces env (nr_ip r) (timestamp (nr_now_unix r)))
     in if length text \<le> 2048 then Some text else None)"
  by (simp add: NodeRegistration_write_json_def fmt_timestamp write_fmt_eq Let_def)

lemma HeapAnnotationPatch_write:
  "HeapAnnotationPatch_write_json push free [] = Some (concat (HeapAnnotation_pieces free))"
  using length_HeapAnnotation [of free]
  by (simp add: HeapAnnotationPatch_write_json_def write_fmt_eq)

lemma NodeStatus_write_custom_eq:
  assumes "length out \<le> 3072"
  shows "NodeStatus_write_custom push hb entries out =
    (if length out + length (custom_text hb entries) \<le> 3072
     then Some (out @ custom_text hb entries) else None)"
  using assms
proof (induction entries arbitrary: out)
  case (Cons e es)
  then show ?case
    by (auto simp: custom_text_def fmt_timestamp write_fmt_eq)
qed (simp add: custom_text_def)

lemma NodeStatusPatch_write:
  "NodeStatusPatch_write_json push p [] =
    (if length (status_text p) \<le> 3072 then Some (status_text p) else None)"
  by (auto simp: NodeStatusPatch_write_json_def fmt_timestamp write_fmt_eq
      NodeStatus_write_custom_eq push_eq status_text_def Let_def)

end

lemma timestamp_text:
  "unat unix < 2 ^ 55 \<Longrightarrow> timestamp unix =
    rfc3339_text (civil_of_days (epoch_shift + unat unix div 86400)) (unat unix mod 86400)"
  unfolding timestamp_def by (simp add: concat_rfc3339_pieces civil_of_days_eq)

lemma timestamp_0: "timestamp 0 = ''1970-01-01T00:00:00.000000Z''"
proof -
  have "rfc3339_text (civil_of_days epoch_shift) 0 = ''1970-01-01T00:00:00.000000Z''" by code_simp
  then show ?thesis by (simp add: timestamp_text)
qed

section \<open>Properties\<close>

text \<open>C25. For every node name the paths admit, the lease body fits its buffer and is the JSON object
  of the lease, with the name as its holder and the time of the renewal.\<close>

theorem lease_body_json:
  assumes "bounded_buffer push" "json_plain (NODE_NAME env)" "length (NODE_NAME env) \<le> 65"
  shows "LeaseBody_write_json push env unix []
    = Some (json_render (lease_json (NODE_NAME env) (timestamp unix)))"
  using bounded_buffer.LeaseBody_write [OF assms(1)] LeaseBody_json [OF assms(2)]
    length_LeaseBody [of env "timestamp unix"] length_timestamp [of unix] assms(3)
  by simp

lemma lease_body_json_witness:
  "LeaseBody_write_json bounded_push (sample_env ''heinrich'') 0 []
    = Some (json_render (lease_json ''heinrich'' ''1970-01-01T00:00:00.000000Z''))"
proof -
  have "json_plain (NODE_NAME (sample_env ''heinrich''))" "NODE_NAME (sample_env ''heinrich'') = ''heinrich''"
    by code_simp+
  then show ?thesis
    using lease_body_json [OF ref_buffer.bounded_buffer_axioms, of "sample_env ''heinrich''" 0]
    by (simp add: timestamp_0)
qed

lemma length_timestamp_ge: "27 \<le> length (timestamp unix)"
proof -
  obtain y m d h mi se where f: "rfc3339_fields unix = (y, m, d, h, mi, se)" by (metis prod_cases6)
  have "4 \<le> length (fmt_zero_padded_signed 4 y)"
    by (simp add: fmt_zero_padded_signed_def length_pad_zero)
  moreover have two: "2 \<le> length (fmt_zero_padded 2 x)" for x :: u32
    by (simp add: fmt_zero_padded_def length_pad_zero)
  note two [of m] two [of d] two [of h] two [of mi] two [of se]
  ultimately show ?thesis by (simp add: timestamp_def rfc3339_pieces_def f)
qed

text \<open>C24. The Node object: for every address, every time and every name of the characters that names
  of nodes have, the body is the JSON object of the registration, and building it fails exactly when
  that has more than 2048 bytes. Its length is linear in those of the name, the address and the
  timestamp, so names of up to 61 bytes fit at the times of four-digit years and names of 64 or 65 bytes, which the
  paths admit, never do.\<close>

theorem node_body_json:
  assumes "bounded_buffer push" "json_plain (NODE_NAME env)"
  shows "let text = json_render (node_json (NODE_NAME env) ip (timestamp unix)) in
    NodeRegistration_write_json push env \<lparr>nr_ip = ip, nr_now_unix = unix\<rparr> [] =
      (if length text \<le> 2048 then Some text else None) \<and>
    length text = 1572 + 4 * length (NODE_NAME env) + length (dotted_quad ip) + 8 * length (timestamp unix) \<and>
    7 \<le> length (dotted_quad ip) \<and> length (dotted_quad ip) \<le> 15 \<and>
    27 \<le> length (timestamp unix) \<and> length (timestamp unix) \<le> 34"
  using length_dotted_quad_ge [of ip] length_timestamp [of unix] length_timestamp_ge [of unix]
    bounded_buffer.NodeRegistration_write [OF assms(1)] NodeRegistration_json [OF assms(2), of ip unix]
      length_NodeRegistration [of env ip "timestamp unix"] length_dotted_quad [of ip]
  by (simp add: Let_def)

lemma node_body_json_witness:
  "NodeRegistration_write_json bounded_push (sample_env (replicate 64 CHR ''n''))
     \<lparr>nr_ip = (1, 2, 3, 4), nr_now_unix = 18446744073709551615\<rparr> [] = None"
proof -
  have "json_plain (NODE_NAME (sample_env (replicate 64 CHR ''n'')))"
    "length (NODE_NAME (sample_env (replicate 64 CHR ''n''))) = 64"
    by code_simp+
  then show ?thesis
    using node_body_json [OF ref_buffer.bounded_buffer_axioms, of "sample_env (replicate 64 CHR ''n'')"
        "(1, 2, 3, 4)" 18446744073709551615]
    by (simp add: Let_def)
qed

end
