(* ===== verification/Api.thy ===== *)
theory Api
  imports Client Models
begin

text \<open>
  \<open>src/k8s/api.rs\<close>: the typed operations on the API server, from a body to the decision
  on the status of the response, and the errors a reconciler reports.
\<close>

datatype ReconcileError =
    BuildJson string
  | Api string ApiError
  | UnexpectedStatus string u16

text \<open>The derived \<open>Debug\<close> of \<open>ApiError\<close>.\<close>

fun TlsError_debug :: "TlsError \<Rightarrow> string" where
  "TlsError_debug ConnectionClosed = ''ConnectionClosed''"
| "TlsError_debug (TlsOther t) = t"

fun ApiError_debug :: "ApiError \<Rightarrow> string" where
  "ApiError_debug (Tcp t) = ''Tcp('' @ t @ '')''"
| "ApiError_debug (Tls t) = ''Tls('' @ TlsError_debug t @ '')''"
| "ApiError_debug Fmt = ''Fmt''"
| "ApiError_debug (Truncated n) = ''Truncated('' @ fmt_display n @ '')''"
| "ApiError_debug BadResponse = ''BadResponse''"
| "ApiError_debug (ClientError n) = ''ClientError('' @ fmt_display n @ '')''"
| "ApiError_debug (ServerError n) = ''ServerError('' @ fmt_display n @ '')''"
| "ApiError_debug (AuthError n) = ''AuthError('' @ fmt_display n @ '')''"

fun ReconcileError_display :: "ReconcileError \<Rightarrow> string" where
  "ReconcileError_display (BuildJson operation) = operation @ '' body build failed''"
| "ReconcileError_display (Api operation source) =
     operation @ '' request failed: '' @ ApiError_debug source"
| "ReconcileError_display (UnexpectedStatus operation st) =
     operation @ '' returned HTTP '' @ fmt_display st"

datatype LeaseRenewal = Renewed | Missing

text \<open>
  What an operation makes of the answer to its request: the end of each function, behind its
  await.
\<close>

definition renewal_outcome :: "ApiError + Response \<Rightarrow> ReconcileError + LeaseRenewal" where
  [simp]: "renewal_outcome r =
     (case r of
        Inl source \<Rightarrow> Inl (Api ''lease renewal'' source)
      | Inr resp \<Rightarrow>
          if rs_status resp = 200 then Inr Renewed
          else if rs_status resp = 404 then Inr Missing
          else Inl (UnexpectedStatus ''lease renewal'' (rs_status resp)))"

definition creation_outcome :: "ApiError + Response \<Rightarrow> ReconcileError + unit" where
  [simp]: "creation_outcome r =
     (case r of
        Inl source \<Rightarrow> Inl (Api ''lease create'' source)
      | Inr resp \<Rightarrow>
          if rs_status resp = 201 \<or> rs_status resp = 409 then Inr ()
          else Inl (UnexpectedStatus ''lease create'' (rs_status resp)))"

definition status_outcome :: "ApiError + Response \<Rightarrow> ReconcileError + unit" where
  [simp]: "status_outcome r =
     (case r of
        Inl source \<Rightarrow> Inl (Api ''node status'' source)
      | Inr resp \<Rightarrow>
          if rs_status resp = 200 then Inr ()
          else Inl (UnexpectedStatus ''node status'' (rs_status resp)))"

definition annotation_outcome :: "ApiError + Response \<Rightarrow> ReconcileError + unit" where
  [simp]: "annotation_outcome r =
     (case r of
        Inl source \<Rightarrow> Inl (Api ''heap annotation'' source)
      | Inr resp \<Rightarrow>
          if rs_status resp = 200 then Inr ()
          else Inl (UnexpectedStatus ''heap annotation'' (rs_status resp)))"

text \<open>The typed API borrows the client.\<close>

record KubeApi =
  ka_client :: ApiClient

definition KubeApi_new :: "ApiClient \<Rightarrow> KubeApi" where
  "KubeApi_new c = \<lparr>ka_client = c\<rparr>"

lemma ka_client_new [simp]: "ka_client (KubeApi_new c) = c"
  by (simp add: KubeApi_new_def)

definition renew_lease ::
    "'w platform \<Rightarrow> KubeApi \<Rightarrow> NodeIdentity \<Rightarrow> u64 \<Rightarrow> 'w sys
      \<Rightarrow> (ReconcileError + LeaseRenewal) \<times> 'w sys" where
  "renew_lease p api identity renew_unix s =
     (case LeaseBody_write_json (push p) (env p) renew_unix [] of
        None \<Rightarrow> (Inl (BuildJson ''lease renewal''), s)
      | Some body \<Rightarrow>
      let (r, s) = patch_merge p (ka_client api) (as_str (ni_lease_path identity)) body s
      in (renewal_outcome r, s))"

definition create_lease ::
    "'w platform \<Rightarrow> KubeApi \<Rightarrow> u64 \<Rightarrow> 'w sys \<Rightarrow> (ReconcileError + unit) \<times> 'w sys" where
  "create_lease p api renew_unix s =
     (case LeaseBody_write_json (push p) (env p) renew_unix [] of
        None \<Rightarrow> (Inl (BuildJson ''lease create''), s)
      | Some body \<Rightarrow>
      let (r, s) = post p (ka_client api) ''/apis/coordination.k8s.io/v1/namespaces/kube-node-lease/leases'' body s
      in (creation_outcome r, s))"

definition patch_node_status ::
    "'w platform \<Rightarrow> KubeApi \<Rightarrow> NodeIdentity \<Rightarrow> NodeCondTracker \<Rightarrow> CustomCondEntry list \<Rightarrow> u64
      \<Rightarrow> 'w sys \<Rightarrow> (ReconcileError + unit) \<times> 'w sys" where
  "patch_node_status p api identity tracker custom heartbeat_unix s =
     (case NodeStatusPatch_write_json (push p)
             \<lparr>nsp_tracker = tracker, nsp_custom = custom, nsp_heartbeat_unix = heartbeat_unix\<rparr> [] of
        None \<Rightarrow> (Inl (BuildJson ''node status''), s)
      | Some body \<Rightarrow>
      let (r, s) = patch_strategic p (ka_client api) (as_str (ni_status_path identity)) body s
      in (status_outcome r, s))"

definition patch_heap_annotation ::
    "'w platform \<Rightarrow> KubeApi \<Rightarrow> NodeIdentity \<Rightarrow> usize \<Rightarrow> 'w sys
      \<Rightarrow> (ReconcileError + unit) \<times> 'w sys" where
  "patch_heap_annotation p api identity free_bytes s =
     (case HeapAnnotationPatch_write_json (push p) free_bytes [] of
        None \<Rightarrow> (Inl (BuildJson ''heap annotation''), s)
      | Some body \<Rightarrow>
      let (r, s) = patch_merge p (ka_client api) (as_str (ni_node_path identity)) body s
      in (annotation_outcome r, s))"

section \<open>What an operation sends and changes\<close>

text \<open>
  A request adds its line to the requests sent and leaves the statics and the log alone.
\<close>

definition line_of :: "string \<Rightarrow> string \<Rightarrow> string \<Rightarrow> bytes option \<Rightarrow> request_line" where
  "line_of m ct path body =
     \<lparr>rq_method = m, rq_content_type = ct, rq_path = path, rq_body = body\<rparr>"

definition adds :: "request_line list \<Rightarrow> 'w sys \<Rightarrow> 'w sys \<Rightarrow> bool" where
  "adds ls s t \<longleftrightarrow> same_statics s t \<and> logged t = logged s \<and> sent t = sent s @ ls"

lemma adds_refl [simp]: "adds [] s s"
  by (simp add: adds_def)

lemma adds_trans: "adds ls s t \<Longrightarrow> adds ms t u \<Longrightarrow> adds (ls @ ms) s u"
  by (auto simp: adds_def intro: same_statics_trans)

lemma request_adds: "request p c m ct path b s = (r, t) \<Longrightarrow> adds [line_of m ct path b] s t"
  by (auto simp: request_def adds_def same_statics_def line_of_def Let_def split: prod.splits)

lemmas verb_defs = get_def post_def patch_merge_def patch_strategic_def

definition lease_text :: "build_env \<Rightarrow> u64 \<Rightarrow> bytes" where
  "lease_text e unix = concat (LeaseBody_pieces e (timestamp unix))"

definition lease_renew_line :: "build_env \<Rightarrow> NodeIdentity \<Rightarrow> u64 \<Rightarrow> request_line" where
  "lease_renew_line e identity unix =
     line_of ''PATCH'' ''application/merge-patch+json'' (ni_lease_path identity)
       (Some (lease_text e unix))"

definition lease_create_line :: "build_env \<Rightarrow> u64 \<Rightarrow> request_line" where
  "lease_create_line e unix =
     line_of ''POST'' ''application/json''
       ''/apis/coordination.k8s.io/v1/namespaces/kube-node-lease/leases'' (Some (lease_text e unix))"

definition status_line_of :: "NodeIdentity \<Rightarrow> NodeStatusPatch \<Rightarrow> request_line" where
  "status_line_of identity ns =
     line_of ''PATCH'' ''application/strategic-merge-patch+json'' (ni_status_path identity)
       (Some (status_text ns))"

definition annotation_line :: "NodeIdentity \<Rightarrow> usize \<Rightarrow> request_line" where
  "annotation_line identity free =
     line_of ''PATCH'' ''application/merge-patch+json'' (ni_node_path identity)
       (Some (concat (HeapAnnotation_pieces free)))"

context bounded_buffer
begin

lemma LeaseBody_write_fits:
  assumes "length (NODE_NAME e) \<le> 65"
  shows "LeaseBody_write_json push e unix [] = Some (lease_text e unix)"
  using assms length_timestamp [of unix]
  by (simp add: LeaseBody_write lease_text_def length_LeaseBody)

end

lemma renew_lease_adds:
  assumes "bounded_buffer (push p)" "length (NODE_NAME (env p)) \<le> 65"
    "renew_lease p api identity unix s = (r, t)"
  shows "adds [lease_renew_line (env p) identity unix] s t"
  using assms(3) bounded_buffer.LeaseBody_write_fits [OF assms(1,2)]
  by (auto simp: renew_lease_def verb_defs as_str_def lease_renew_line_def
      split: prod.splits sum.splits dest: request_adds)

lemma create_lease_adds:
  assumes "bounded_buffer (push p)" "length (NODE_NAME (env p)) \<le> 65"
    "create_lease p api unix s = (r, t)"
  shows "adds [lease_create_line (env p) unix] s t"
  using assms(3) bounded_buffer.LeaseBody_write_fits [OF assms(1,2)]
  by (auto simp: create_lease_def verb_defs lease_create_line_def
      split: prod.splits sum.splits dest: request_adds)

lemma patch_heap_annotation_adds:
  assumes "bounded_buffer (push p)" "patch_heap_annotation p api identity free s = (r, t)"
  shows "adds [annotation_line identity free] s t"
  using assms(2) bounded_buffer.HeapAnnotationPatch_write [OF assms(1)]
  by (auto simp: patch_heap_annotation_def verb_defs as_str_def annotation_line_def
      split: prod.splits sum.splits dest: request_adds)

lemma patch_node_status_adds:
  assumes "bounded_buffer (push p)" "list_all (\<lambda>e. entry_size e \<le> 70) custom" "length custom \<le> 5"
    "patch_node_status p api identity tracker custom hb s = (r, t)"
  shows "adds [status_line_of identity
    \<lparr>nsp_tracker = tracker, nsp_custom = custom, nsp_heartbeat_unix = hb\<rparr>] s t"
proof -
  let ?ns = "\<lparr>nsp_tracker = tracker, nsp_custom = custom, nsp_heartbeat_unix = hb\<rparr>"
  have "length (status_text ?ns) \<le> 3072"
    using assms(2,3) by (intro length_status_text) simp_all
  then show ?thesis
    using assms(4) bounded_buffer.NodeStatusPatch_write [OF assms(1), of ?ns]
    by (auto simp: patch_node_status_def verb_defs as_str_def status_line_of_def
        split: prod.splits sum.splits dest: request_adds)
qed

text \<open>Whatever fails, an operation changes no static and logs nothing.\<close>

lemma api_same_statics:
  "renew_lease p api identity unix s = (r1, t) \<Longrightarrow> same_statics s t \<and> logged t = logged s"
  "create_lease p api unix s = (r2, t) \<Longrightarrow> same_statics s t \<and> logged t = logged s"
  "patch_node_status p api identity tracker custom hb s = (r2, t) \<Longrightarrow> same_statics s t \<and> logged t = logged s"
  "patch_heap_annotation p api identity free s = (r2, t) \<Longrightarrow> same_statics s t \<and> logged t = logged s"
  by (auto simp: renew_lease_def create_lease_def patch_node_status_def patch_heap_annotation_def
      verb_defs adds_def split: prod.splits sum.splits option.splits dest!: request_adds)

end
