(* ===== verification/Reconcilers.thy ===== *)
theory Reconcilers
  imports Api
begin

text \<open>
  \<open>src/reconcilers/mod.rs\<close>: the loop every reconciler runs. The trait \<open>Reconciler\<close> is the
  locale \<open>reconciler\<close>: what a reconciler promises about its state and the statics in every
  round, and what it relies on from the tasks that run while it waits. A reconciler never
  returns; \<open>run\<close> is the loop over a list of rounds, each entry of the list being what the
  other tasks do to the shared state before that round.
\<close>

record ReconcileContext =
  ctx_api :: KubeApi
  ctx_identity :: NodeIdentity

definition ReconcileContext_new :: "ApiClient \<Rightarrow> NodeIdentity \<Rightarrow> ReconcileContext" where
  "ReconcileContext_new c identity = \<lparr>ctx_api = KubeApi_new c, ctx_identity = identity\<rparr>"

lemma context_new [simp]:
  "ctx_api (ReconcileContext_new c identity) = KubeApi_new c"
  "ctx_identity (ReconcileContext_new c identity) = identity"
  by (simp_all add: ReconcileContext_new_def)

type_synonym ('st, 'w) reconcile = "'st \<Rightarrow> 'w sys \<Rightarrow> (ReconcileError + unit) \<times> 'st \<times> 'w sys"

definition interval :: u64 where
  "interval = LEASE_RENEW_PERIOD_SECS"

definition reconcile_round ::
    "'w platform \<Rightarrow> string \<Rightarrow> ('st, 'w) reconcile \<Rightarrow> 'st \<Rightarrow> 'w sys \<Rightarrow> 'st \<times> 'w sys" where
  "reconcile_round p name reconcile st s =
     (let s = wait_secs p interval s;
          (res, st, s) = reconcile st s
      in (st, case res of Inl e \<Rightarrow> warn [name, '' reconcile failed: '', ReconcileError_display e] s
              | Inr u \<Rightarrow> s))"

fun run_rounds ::
    "'w platform \<Rightarrow> string \<Rightarrow> ('st, 'w) reconcile \<Rightarrow> ('w sys \<Rightarrow> 'w sys) list \<Rightarrow> 'st \<Rightarrow> 'w sys
      \<Rightarrow> 'st \<times> 'w sys" where
  "run_rounds p name reconcile [] st s = (st, s)"
| "run_rounds p name reconcile (others # rounds) st s =
     (let (st, s) = reconcile_round p name reconcile st (others s)
      in run_rounds p name reconcile rounds st s)"

definition run ::
    "'w platform \<Rightarrow> string \<Rightarrow> (ReconcileContext \<Rightarrow> ('st, 'w) reconcile) \<Rightarrow> ApiClient \<Rightarrow> NodeIdentity
      \<Rightarrow> ('w sys \<Rightarrow> 'w sys) list \<Rightarrow> 'st \<Rightarrow> 'w sys \<Rightarrow> 'st \<times> 'w sys" where
  "run p name reconcile c identity rounds st s =
     (let ctx = ReconcileContext_new c identity
      in run_rounds p name (reconcile ctx) rounds st s)"

lemma run_rounds_append:
  "run_rounds p name rec (xs @ ys) st s =
    (let (st, s) = run_rounds p name rec xs st s in run_rounds p name rec ys st s)"
  by (induction xs arbitrary: st s) (simp_all add: split_def Let_def)

text \<open>
  \<open>inv\<close> is kept by every call of \<open>reconcile\<close>, whatever it returns, and by every step the
  reconciler relies on.
\<close>

locale reconciler =
  fixes p :: "'w platform"
    and name :: string
    and reconcile :: "('st, 'w) reconcile"
    and inv :: "'st \<Rightarrow> 'w sys \<Rightarrow> bool"
    and rely :: "'w sys \<Rightarrow> 'w sys \<Rightarrow> bool"
  assumes reconcile_inv: "inv st s \<Longrightarrow> reconcile st s = (res, st', s') \<Longrightarrow> inv st' s'"
    and rely_inv: "inv st s \<Longrightarrow> rely s s' \<Longrightarrow> inv st s'"
    and rely_warn: "rely s (warn ps s)"
    and rely_wait: "rely s (wait_secs p n s)"
begin

lemma round_inv:
  assumes "inv st s" "reconcile_round p name reconcile st s = (st', s')"
  shows "inv st' s'"
proof -
  obtain res s1 where rec: "reconcile st (wait_secs p interval s) = (res, st', s1)"
    and s': "s' = s1 \<or> (\<exists>ps. s' = warn ps s1)"
    using assms(2) by (auto simp: reconcile_round_def Let_def split: prod.splits sum.splits)
  have "inv st' s1"
    using reconcile_inv [OF rely_inv [OF assms(1) rely_wait] rec] .
  then show ?thesis using s' rely_inv rely_warn by blast
qed

text \<open>After any number of rounds, whatever the other tasks do within the rely.\<close>

lemma run_inv:
  assumes "inv st s" "\<And>f s. f \<in> set fs \<Longrightarrow> rely s (f s)"
    "run_rounds p name reconcile fs st s = (st', s')"
  shows "inv st' s'"
  using assms
proof (induction fs arbitrary: st s)
  case (Cons f fs)
  obtain st1 s1 where round: "reconcile_round p name reconcile st (f s) = (st1, s1)"
    by fastforce
  have "inv st (f s)" using Cons.prems(1,2) rely_inv by auto
  from round_inv [OF this round] have "inv st1 s1" .
  then show ?case using Cons.IH [of st1 s1] Cons.prems(2,3) round by simp
qed simp

end

end
