(* ===== verification/Status.thy ===== *)
theory Status
  imports Reconcilers
begin

text \<open>
  \<open>src/reconcilers/status.rs\<close>: the status reconciler. Every round it samples the heap, the
  Wi-Fi statics and both clocks, observes the conditions, and pushes them to the API server
  when one of them changed or the last push is \<open>STATUS_UPDATE_PERIOD_SECS\<close> old.
\<close>

record LoopState =
  ls_custom :: CustomCondTracker
  ls_prev_assoc_total :: u32
  ls_prev_bssid :: u64
  ls_prev_unix :: u64
  ls_prev_mono_ms :: u64
  ls_status_ok_idx :: u32

record StatusReconciler =
  sr_tracker :: NodeCondTracker
  sr_last_status_update :: u64
  sr_state :: LoopState

definition STATUS_OK_LINES :: "string list" where
  "STATUS_OK_LINES =
     [''we are observably alive'', ''the cluster knows we exist'',
      ''kube-state-metrics has been informed'', ''still no notes from management'',
      ''free heap: marginally less'', ''our conditions are unchanged. spiritually too.'',
      ''this was a triumph'', ''i'm making a note here: huge success'', ''still alive'',
      ''i'm doing science and i'm still alive'', ''i feel fantastic and i'm still alive'',
      ''anyway, this cake is great'',
      ''for the good of all of us, except the ones who are dead'', ''while you're still alive'']"

definition StatusReconciler_new ::
    "'w platform \<Rightarrow> NodeCondTracker \<Rightarrow> CustomCondTracker \<Rightarrow> 'w sys \<Rightarrow> StatusReconciler \<times> 'w sys" where
  "StatusReconciler_new p tracker custom s =
     (let (last, s) = unix_now p s;
          total = WIFI_ASSOCIATIONS_TOTAL (wifi s);
          bssid = WIFI_BSSID (wifi s);
          (unix, s) = unix_now p s;
          (ms, s) = now_millis p s
      in (\<lparr>sr_tracker = tracker, sr_last_status_update = last,
           sr_state = \<lparr>ls_custom = custom, ls_prev_assoc_total = total, ls_prev_bssid = bssid,
             ls_prev_unix = unix, ls_prev_mono_ms = ms, ls_status_ok_idx = 0\<rparr>\<rparr>, s))"

text \<open>The two edge detectors.\<close>

definition bssid_flip :: "u64 \<Rightarrow> u64 \<Rightarrow> bool" where
  "bssid_flip prev_bssid bssid_now \<longleftrightarrow> prev_bssid \<noteq> 0 \<and> bssid_now \<noteq> 0 \<and> bssid_now \<noteq> prev_bssid"

definition time_slip :: "u64 \<Rightarrow> u64 \<Rightarrow> u64 \<Rightarrow> u64 \<Rightarrow> bool" where
  "time_slip prev_unix prev_mono_ms now now_ms \<longleftrightarrow>
     (let wall_delta = (now - prev_unix :: i64);
          mono_delta = (saturating_sub now_ms prev_mono_ms div 1000 :: i64)
      in HAUNTED_SLIP_SECS <s signed_abs (wall_delta - mono_delta))"

text \<open>The five custom conditions of a set of inputs, and their observation.\<close>

record evaluated =
  ev_vibes :: CustomCond
  ev_caffeinated :: CustomCond
  ev_existential :: CustomCond
  ev_peckish :: CustomCond
  ev_haunted :: CustomCond

definition evaluate :: "CustomCondInputs \<Rightarrow> evaluated" where
  "evaluate inputs =
     \<lparr>ev_vibes = eval_vibes inputs, ev_caffeinated = eval_caffeinated inputs,
      ev_existential = eval_existential inputs, ev_peckish = eval_peckish inputs,
      ev_haunted = eval_haunted inputs\<rparr>"

definition observe_custom ::
    "evaluated \<Rightarrow> u64 \<Rightarrow> CustomCondTracker \<Rightarrow> bool \<times> CustomCondTracker" where
  "observe_custom ev now t =
     (let (v_flip, v) = CustomCondState_observe (cc_status (ev_vibes ev)) now (vibes t);
          (c_flip, c) = CustomCondState_observe (cc_status (ev_caffeinated ev)) now (caffeinated t);
          (e_flip, e) = CustomCondState_observe (cc_status (ev_existential ev)) now (existential t);
          (p_flip, p) = CustomCondState_observe (cc_status (ev_peckish ev)) now (peckish t);
          (h_flip, h) = CustomCondState_observe (cc_status (ev_haunted ev)) now (haunted t)
      in (v_flip \<or> c_flip \<or> e_flip \<or> p_flip \<or> h_flip,
          \<lparr>vibes = v, caffeinated = c, existential = e, peckish = p, haunted = h\<rparr>))"

definition custom_entries :: "evaluated \<Rightarrow> CustomCondTracker \<Rightarrow> CustomCondEntry list" where
  "custom_entries ev t =
     [\<lparr>ce_name = ''Vibes'', ce_current = ev_vibes ev, ce_transitioned_at = ccs_transitioned_at (vibes t)\<rparr>,
      \<lparr>ce_name = ''Caffeinated'', ce_current = ev_caffeinated ev,
       ce_transitioned_at = ccs_transitioned_at (caffeinated t)\<rparr>,
      \<lparr>ce_name = ''Existential'', ce_current = ev_existential ev,
       ce_transitioned_at = ccs_transitioned_at (existential t)\<rparr>,
      \<lparr>ce_name = ''Peckish'', ce_current = ev_peckish ev,
       ce_transitioned_at = ccs_transitioned_at (peckish t)\<rparr>,
      \<lparr>ce_name = ''Haunted'', ce_current = ev_haunted ev,
       ce_transitioned_at = ccs_transitioned_at (haunted t)\<rparr>]"

section \<open>One round\<close>

text \<open>What the first half of a round has sampled and decided.\<close>

record sample =
  sm_now :: u64
  sm_now_ms :: u64
  sm_free :: usize
  sm_assoc_total :: u32
  sm_bssid :: u64
  sm_evaluated :: evaluated
  sm_push :: bool

definition status_sample ::
    "'w platform \<Rightarrow> StatusReconciler \<Rightarrow> 'w sys \<Rightarrow> sample \<times> StatusReconciler \<times> 'w sys" where
  "status_sample p st s =
     (let (now, s) = unix_now p s;
          (now_ms, s) = now_millis p s;
          (free, s) = free_heap p s;
          mp_now = free < MEMORY_PRESSURE_FREE_BYTES;
          (mp_flipped, mp) = CondState_observe mp_now now (memory_pressure (sr_tracker st));
          st = st\<lparr>sr_tracker := (sr_tracker st)\<lparr>memory_pressure := mp\<rparr>\<rparr>;
          assoc_total = WIFI_ASSOCIATIONS_TOTAL (wifi s);
          bssid_now = WIFI_BSSID (wifi s);
          reconnects = saturating_sub assoc_total (ls_prev_assoc_total (sr_state st));
          bssid_changed = bssid_flip (ls_prev_bssid (sr_state st)) bssid_now;
          time_slipped = time_slip (ls_prev_unix (sr_state st)) (ls_prev_mono_ms (sr_state st)) now now_ms;
          (uptime, s) = now_secs p s;
          inputs = \<lparr>heap_free_bytes = free, uptime_secs = uptime,
                    wifi_reconnects_5min = reconnects, renewal_count = RENEWAL_COUNT s,
                    bssid_changed = bssid_changed, time_slipped = time_slipped\<rparr>;
          ev = evaluate inputs;
          (any_custom_flipped, custom) = observe_custom ev now (ls_custom (sr_state st));
          st = st\<lparr>sr_state := (sr_state st)\<lparr>ls_custom := custom\<rparr>\<rparr>;
          due = (now \<noteq> 0 \<and> STATUS_UPDATE_PERIOD_SECS \<le> saturating_sub now (sr_last_status_update st))
      in (\<lparr>sm_now = now, sm_now_ms = now_ms, sm_free = free, sm_assoc_total = assoc_total,
           sm_bssid = bssid_now, sm_evaluated = ev,
           sm_push = (mp_flipped \<or> any_custom_flipped \<or> due)\<rparr>, st, s))"

definition status_push ::
    "'w platform \<Rightarrow> ReconcileContext \<Rightarrow> sample \<Rightarrow> (StatusReconciler, 'w) reconcile" where
  "status_push p ctx sm st s =
     (let entries = custom_entries (sm_evaluated sm) (ls_custom (sr_state st));
          ok_line = STATUS_OK_LINES ! (unat (ls_status_ok_idx (sr_state st)) mod length STATUS_OK_LINES);
          st = st\<lparr>sr_state := (sr_state st)\<lparr>ls_status_ok_idx := ls_status_ok_idx (sr_state st) + 1\<rparr>\<rparr>;
          mp = cs_value (memory_pressure (sr_tracker st));
          s = info [''PATCH /status (heap: '', fmt_display (sm_free sm), '' B, vibes: '',
                    if mp then ''concerning'' else ''immaculate'', '', MemoryPressure='',
                    if mp then ''true'' else ''false'', '')''] s
      in case patch_node_status p (ctx_api ctx) (ctx_identity ctx) (sr_tracker st) entries (sm_now sm) s of
           (Inl e, s) \<Rightarrow> (Inl e, st, s)
         | (Inr u, s) \<Rightarrow>
         let s = info [''status updated ('', ok_line, '')''] s in
         case patch_heap_annotation p (ctx_api ctx) (ctx_identity ctx) (sm_free sm) s of
           (Inl e, s) \<Rightarrow> (Inl e, st, s)
         | (Inr u, s) \<Rightarrow>
         (Inr (), st\<lparr>sr_last_status_update := sm_now sm,
                     sr_state := (sr_state st)\<lparr>ls_prev_assoc_total := sm_assoc_total sm,
                       ls_prev_bssid := sm_bssid sm, ls_prev_unix := sm_now sm,
                       ls_prev_mono_ms := sm_now_ms sm\<rparr>\<rparr>, s))"

definition status_reconcile ::
    "'w platform \<Rightarrow> ReconcileContext \<Rightarrow> (StatusReconciler, 'w) reconcile" where
  "status_reconcile p ctx st s =
     (let (sm, st, s) = status_sample p st s
      in if \<not> sm_push sm then (Inr (), st, s) else status_push p ctx sm st s)"

definition status_reconciler ::
    "'w platform \<Rightarrow> ApiClient \<Rightarrow> NodeIdentity \<Rightarrow> NodeCondTracker \<Rightarrow> CustomCondTracker
      \<Rightarrow> ('w sys \<Rightarrow> 'w sys) list \<Rightarrow> 'w sys \<Rightarrow> StatusReconciler \<times> 'w sys" where
  "status_reconciler p c identity tracker custom rounds s =
     (let (st, s) = StatusReconciler_new p tracker custom s
      in run p ''status'' (status_reconcile p) c identity rounds st s)"


section \<open>The entries always serialise\<close>

definition cond_small :: "CustomCond \<Rightarrow> bool" where
  "cond_small c \<longleftrightarrow> json_plain (cc_reason c) \<and> json_plain (cc_message c) \<and>
     length (cc_reason c) + length (cc_message c) \<le> 48"

lemma eval_small:
  "cond_small (eval_vibes i)" "cond_small (eval_caffeinated i)" "cond_small (eval_existential i)"
  "cond_small (eval_peckish i)" "cond_small (eval_haunted i)"
  unfolding cond_eval_defs Let_def by (simp_all add: cond_small_def json_plain_char_def)

lemma length_CondStatus: "length (CondStatus_as_str st) \<le> 7"
  by (cases st) simp_all

lemma custom_entries_plain: "list_all entry_plain (custom_entries (evaluate inputs) t)"
proof -
  have "json_plain ''Vibes''" "json_plain ''Caffeinated''" "json_plain ''Existential''"
    "json_plain ''Peckish''" "json_plain ''Haunted''"
    by (simp_all add: json_plain_char_def)
  then show ?thesis
    using eval_small [of inputs]
    by (simp add: custom_entries_def evaluate_def entry_plain_def cond_small_def)
qed

lemma custom_entries_size: "list_all (\<lambda>e. entry_size e \<le> 70) (custom_entries (evaluate inputs) t)"
proof -
  have "length (CondStatus_as_str (cc_status c)) + length (cc_reason c) + length (cc_message c) \<le> 55"
    if "cond_small c" for c
    using that length_CondStatus [of "cc_status c"] by (simp add: cond_small_def)
  with eval_small [of inputs] show ?thesis
    by (fastforce simp: custom_entries_def evaluate_def entry_size_def)
qed

text \<open>An evaluated condition is True or False, but for Vibes, which can be indeterminate.\<close>

definition entry_known :: "CustomCondEntry \<Rightarrow> bool" where
  "entry_known e \<longleftrightarrow> ce_name e = ''Vibes'' \<or> cc_status (ce_current e) \<noteq> CondUnknown"

lemma eval_known:
  "cc_status (eval_caffeinated i) \<noteq> CondUnknown"
  "cc_status (eval_existential i) \<noteq> CondUnknown" "cc_status (eval_peckish i) \<noteq> CondUnknown"
  "cc_status (eval_haunted i) \<noteq> CondUnknown"
  unfolding cond_eval_defs Let_def by simp_all

lemma custom_entries_known: "list_all entry_known (custom_entries (evaluate inputs) t)"
  using eval_known [of inputs] by (simp add: custom_entries_def evaluate_def entry_known_def)

lemma length_custom_entries: "length (custom_entries ev t) = 5"
  by (simp add: custom_entries_def)

section \<open>The decision to push\<close>

definition statuses :: "evaluated \<Rightarrow> CondStatus list" where
  "statuses ev = map cc_status
     [ev_vibes ev, ev_caffeinated ev, ev_existential ev, ev_peckish ev, ev_haunted ev]"

definition tracked :: "CustomCondTracker \<Rightarrow> CondStatus list" where
  "tracked t = map ccs_status [vibes t, caffeinated t, existential t, peckish t, haunted t]"

definition due :: "u64 \<Rightarrow> u64 \<Rightarrow> bool" where
  "due now prev \<longleftrightarrow> now \<noteq> 0 \<and> STATUS_UPDATE_PERIOD_SECS \<le> saturating_sub now prev"

lemma statuses_known: "CondUnknown \<notin> set (tl (statuses (evaluate inputs)))"
  using eval_known [of inputs] by (auto simp: statuses_def evaluate_def dest: sym)

lemma observe_custom_facts:
  assumes "observe_custom ev now t = (flip, t')"
  shows "flip \<longleftrightarrow> statuses ev \<noteq> tracked t" "tracked t' = statuses ev" "\<not> flip \<Longrightarrow> t' = t"
  using assms
  by (cases t; auto simp: observe_custom_def statuses_def tracked_def CustomCondState_observe_def
      split: if_splits)+

lemma CondState_observe_facts:
  assumes "CondState_observe v now cs = (flip, cs')"
  shows "flip \<longleftrightarrow> v \<noteq> cs_value cs" "cs_value cs' = v" "\<not> flip \<Longrightarrow> cs' = cs"
  using assms by (cases cs; auto simp: CondState_observe_def Let_def split: if_splits)+

lemma adds_Nil: "same_statics s t \<and> sent t = sent s \<and> logged t = logged s \<longleftrightarrow> adds [] s t"
  by (auto simp: adds_def)

lemma status_sample_facts:
  assumes "status_sample p st s = (sm, st', s')"
  shows "adds [] s s'"
    and "sm_push sm \<longleftrightarrow>
      (sm_free sm < MEMORY_PRESSURE_FREE_BYTES) \<noteq> cs_value (memory_pressure (sr_tracker st)) \<or>
      statuses (sm_evaluated sm) \<noteq> tracked (ls_custom (sr_state st)) \<or>
      due (sm_now sm) (sr_last_status_update st)"
    and "cs_value (memory_pressure (sr_tracker st')) = (sm_free sm < MEMORY_PRESSURE_FREE_BYTES)"
    and "tracked (ls_custom (sr_state st')) = statuses (sm_evaluated sm)"
    and "\<not> sm_push sm \<Longrightarrow> st' = st"
    and "sr_last_status_update st' = sr_last_status_update st"
    and "sr_tracker st' = (sr_tracker st)\<lparr>memory_pressure := memory_pressure (sr_tracker st')\<rparr>"
    and "sr_state st' = (sr_state st)\<lparr>ls_custom := ls_custom (sr_state st')\<rparr>"
    and "\<exists>inputs. sm_evaluated sm = evaluate inputs \<and> heap_free_bytes inputs = sm_free sm"
proof -
  obtain now s1 where 1: "unix_now p s = (now, s1)" by fastforce
  obtain now_ms s2 where 2: "now_millis p s1 = (now_ms, s2)" by fastforce
  obtain free s3 where 3: "free_heap p s2 = (free, s3)" by fastforce
  obtain uptime s4 where 4: "now_secs p s3 = (uptime, s4)" by fastforce
  let ?mp = "free < MEMORY_PRESSURE_FREE_BYTES"
  obtain mpf mp where mp: "CondState_observe ?mp now (memory_pressure (sr_tracker st)) = (mpf, mp)"
    by fastforce
  define inputs where "inputs = \<lparr>heap_free_bytes = free, uptime_secs = uptime,
    wifi_reconnects_5min = saturating_sub (WIFI_ASSOCIATIONS_TOTAL (wifi s3)) (ls_prev_assoc_total (sr_state st)),
    renewal_count = RENEWAL_COUNT s4, bssid_changed = bssid_flip (ls_prev_bssid (sr_state st)) (WIFI_BSSID (wifi s3)),
    time_slipped = time_slip (ls_prev_unix (sr_state st)) (ls_prev_mono_ms (sr_state st)) now now_ms\<rparr>"
  obtain cf custom where cu: "observe_custom (evaluate inputs) now (ls_custom (sr_state st)) = (cf, custom)"
    by fastforce
  note simps = status_sample_def Let_def 1 2 3 4 mp cu [unfolded inputs_def]
  have sm: "sm_free sm = free" "sm_evaluated sm = evaluate inputs" "sm_now sm = now"
      "sm_push sm \<longleftrightarrow> mpf \<or> cf \<or> due now (sr_last_status_update st)"
    and st': "st' = st\<lparr>sr_tracker := (sr_tracker st)\<lparr>memory_pressure := mp\<rparr>,
        sr_state := (sr_state st)\<lparr>ls_custom := custom\<rparr>\<rparr>"
    and s': "s' = s4"
    using assms by (auto simp: simps inputs_def due_def)
  show "adds [] s s'"
    unfolding s' adds_Nil [symmetric]
    using unix_now_frame [OF 1] now_millis_frame [OF 2] free_heap_frame [OF 3] now_secs_frame [OF 4]
    by (auto intro: same_statics_trans)
  note facts = CondState_observe_facts [OF mp] observe_custom_facts [OF cu]
  show "sm_push sm \<longleftrightarrow>
      (sm_free sm < MEMORY_PRESSURE_FREE_BYTES) \<noteq> cs_value (memory_pressure (sr_tracker st)) \<or>
      statuses (sm_evaluated sm) \<noteq> tracked (ls_custom (sr_state st)) \<or>
      due (sm_now sm) (sr_last_status_update st)"
    using facts(1,4) by (simp add: sm)
  show "cs_value (memory_pressure (sr_tracker st')) = (sm_free sm < MEMORY_PRESSURE_FREE_BYTES)"
    "tracked (ls_custom (sr_state st')) = statuses (sm_evaluated sm)"
    using facts(2,5) by (simp_all add: sm st')
  show "st' = st" if "\<not> sm_push sm"
  proof -
    from that have "mp = memory_pressure (sr_tracker st)" "custom = ls_custom (sr_state st)"
      using facts(3,6) by (simp_all add: sm)
    then show ?thesis by (simp add: st')
  qed
  show "sr_last_status_update st' = sr_last_status_update st"
    "sr_tracker st' = (sr_tracker st)\<lparr>memory_pressure := memory_pressure (sr_tracker st')\<rparr>"
    "sr_state st' = (sr_state st)\<lparr>ls_custom := ls_custom (sr_state st')\<rparr>"
    by (simp_all add: st')
  show "\<exists>inputs. sm_evaluated sm = evaluate inputs \<and> heap_free_bytes inputs = sm_free sm"
    by (intro exI [of _ inputs]) (simp add: sm inputs_def)
qed


section \<open>The push\<close>

definition sample_patch :: "sample \<Rightarrow> StatusReconciler \<Rightarrow> NodeStatusPatch" where
  "sample_patch sm st =
     \<lparr>nsp_tracker = sr_tracker st,
      nsp_custom = custom_entries (sm_evaluated sm) (ls_custom (sr_state st)),
      nsp_heartbeat_unix = sm_now sm\<rparr>"

text \<open>The state after an attempt, and after one that the server accepted.\<close>

definition attempted :: "StatusReconciler \<Rightarrow> StatusReconciler" where
  "attempted st = st\<lparr>sr_state := (sr_state st)\<lparr>ls_status_ok_idx := ls_status_ok_idx (sr_state st) + 1\<rparr>\<rparr>"

definition pushed :: "sample \<Rightarrow> StatusReconciler \<Rightarrow> StatusReconciler" where
  "pushed sm st = st\<lparr>sr_last_status_update := sm_now sm,
     sr_state := (sr_state st)\<lparr>ls_prev_assoc_total := sm_assoc_total sm, ls_prev_bssid := sm_bssid sm,
       ls_prev_unix := sm_now sm, ls_prev_mono_ms := sm_now_ms sm\<rparr>\<rparr>"

lemma same_statics_info [simp]: "same_statics s (info ps t) \<longleftrightarrow> same_statics s t"
  by (simp add: same_statics_def frame_simps)

lemma status_push_facts:
  assumes push: "bounded_buffer (push p)" and ev: "sm_evaluated sm = evaluate inputs"
    and run: "status_push p (ReconcileContext_new c identity) sm st s = (res, st', s')"
  shows "same_statics s s'"
    and "st' = (if res = Inr () then pushed sm (attempted st) else attempted st)"
    and "sent s' = sent s @ [status_line_of identity (sample_patch sm st)] \<and> res \<noteq> Inr () \<or>
      sent s' = sent s @ [status_line_of identity (sample_patch sm st),
        annotation_line identity (sm_free sm)]"
proof -
  let ?entries = "custom_entries (sm_evaluated sm) (ls_custom (sr_state st))"
  define ps1 where "ps1 = (let mp = cs_value (memory_pressure (sr_tracker st)) in
    [''PATCH /status (heap: '', fmt_display (sm_free sm), '' B, vibes: '',
     if mp then ''concerning'' else ''immaculate'', '', MemoryPressure='',
     if mp then ''true'' else ''false'', '')''])"
  define ps2 where "ps2 = [''status updated ('',
    STATUS_OK_LINES ! (unat (ls_status_ok_idx (sr_state st)) mod length STATUS_OK_LINES), '')'']"
  obtain r1 s1 where patch:
    "patch_node_status p (KubeApi_new c) identity (sr_tracker st) ?entries (sm_now sm) (info ps1 s) = (r1, s1)"
    by fastforce
  obtain r2 s2 where ann: "patch_heap_annotation p (KubeApi_new c) identity (sm_free sm) (info ps2 s1) = (r2, s2)"
    by fastforce
  have res: "(res, st', s') = (case r1 of Inl e \<Rightarrow> (Inl e, attempted st, s1)
      | Inr u \<Rightarrow> (case r2 of Inl e \<Rightarrow> (Inl e, attempted st, s2)
                   | Inr u \<Rightarrow> (Inr (), pushed sm (attempted st), s2)))"
    using run patch [unfolded ps1_def Let_def] ann [unfolded ps2_def]
    by (cases r1; cases r2) (auto simp: status_push_def Let_def attempted_def pushed_def)
  have a1: "adds [status_line_of identity (sample_patch sm st)] (info ps1 s) s1"
    using patch_node_status_adds [OF push _ _ patch] custom_entries_size length_custom_entries
    by (simp add: ev sample_patch_def)
  have a2: "adds [annotation_line identity (sm_free sm)] (info ps2 s1) s2"
    using patch_heap_annotation_adds [OF push ann] .
  show "same_statics s s'"
    using res a1 a2 by (cases r1; cases r2) (auto simp: adds_def same_statics_def frame_simps)
  show "st' = (if res = Inr () then pushed sm (attempted st) else attempted st)"
    using res by (cases r1; cases r2) auto
  show "sent s' = sent s @ [status_line_of identity (sample_patch sm st)] \<and> res \<noteq> Inr () \<or>
      sent s' = sent s @ [status_line_of identity (sample_patch sm st),
        annotation_line identity (sm_free sm)]"
    using res a1 a2 by (cases r1; cases r2) (auto simp: adds_def frame_simps)
qed


lemma status_push_errors:
  assumes "bounded_buffer (push p)" "sm_evaluated sm = evaluate inputs"
    "status_push p (ReconcileContext_new c identity) sm st s = (Inl e, st', s')"
  shows "\<exists>op x. e = Api op x \<or> (\<exists>n. e = UnexpectedStatus op n \<and> n \<noteq> 200)"
proof -
  let ?entries = "custom_entries (sm_evaluated sm) (ls_custom (sr_state st))"
  have "length (status_text \<lparr>nsp_tracker = sr_tracker st, nsp_custom = ?entries,
      nsp_heartbeat_unix = sm_now sm\<rparr>) \<le> 3072"
    using custom_entries_size length_custom_entries
    by (intro length_status_text) (simp_all add: assms(2))
  then show ?thesis
    using assms(3) bounded_buffer.NodeStatusPatch_write [OF assms(1), of "\<lparr>nsp_tracker = sr_tracker st,
        nsp_custom = ?entries, nsp_heartbeat_unix = sm_now sm\<rparr>"]
      bounded_buffer.HeapAnnotationPatch_write [OF assms(1), of "sm_free sm"]
    by (auto simp: status_push_def patch_node_status_def patch_heap_annotation_def Let_def
        split: prod.splits sum.splits if_splits)
qed

section \<open>A round\<close>

lemma status_reconcile_cases:
  assumes "bounded_buffer (push p)" "status_reconcile p (ReconcileContext_new c identity) st s = (res, st', s')"
  obtains (quiet) sm s1 where "status_sample p st s = (sm, st, s1)" "\<not> sm_push sm" "res = Inr ()"
      "st' = st" "s' = s1" "adds [] s s1"
  | (push) sm st1 s1 where "status_sample p st s = (sm, st1, s1)" "sm_push sm"
      "status_push p (ReconcileContext_new c identity) sm st1 s1 = (res, st', s')" "adds [] s s1"
proof -
  obtain sm st1 s1 where sample: "status_sample p st s = (sm, st1, s1)" by (metis prod.collapse)
  note facts = status_sample_facts [OF sample]
  show thesis
  proof (cases "sm_push sm")
    case True
    then show thesis
      using assms(2) facts(1) sample by (intro push) (simp_all add: status_reconcile_def)
  next
    case False
    then show thesis
      using assms(2) facts(1,5) sample by (intro quiet) (auto simp: status_reconcile_def)
  qed
qed

text \<open>Ready, DiskPressure and PIDPressure keep their value and their time for ever.\<close>

definition fixed_conditions :: "NodeCondTracker \<Rightarrow> StatusReconciler \<Rightarrow> 'w sys \<Rightarrow> bool" where
  "fixed_conditions t st s \<longleftrightarrow> ready (sr_tracker st) = ready t \<and>
     disk_pressure (sr_tracker st) = disk_pressure t \<and> pid_pressure (sr_tracker st) = pid_pressure t"

lemma status_push_tracker:
  "status_push p (ReconcileContext_new c identity) sm st s = (res, st', s') \<Longrightarrow> sr_tracker st' = sr_tracker st"
  by (auto simp: status_push_def Let_def split: prod.splits sum.splits)

lemma status_reconcile_fixed:
  assumes "fixed_conditions t st s" "status_reconcile p (ReconcileContext_new c identity) st s = (res, st', s')"
  shows "fixed_conditions t st' s'"
proof -
  obtain sm st1 s1 where sample: "status_sample p st s = (sm, st1, s1)" by (metis prod.collapse)
  obtain mp where "sr_tracker st1 = (sr_tracker st)\<lparr>memory_pressure := mp\<rparr>"
    using status_sample_facts(7) [OF sample] by blast
  then have "fixed_conditions t st1 s" using assms(1) by (simp add: fixed_conditions_def)
  moreover have "sr_tracker st' = sr_tracker st1"
    using assms(2) sample
    by (auto simp: status_reconcile_def split: if_splits dest: status_push_tracker)
  ultimately show ?thesis by (simp add: fixed_conditions_def)
qed

interpretation status_task: reconciler p "''status''" "status_reconcile p (ReconcileContext_new c identity)"
    "fixed_conditions t" "\<lambda>s s'. True"
  for p :: "'w platform" and c identity t
proof
  show "fixed_conditions t st' s'"
    if "fixed_conditions t st s" "status_reconcile p (ReconcileContext_new c identity) st s = (res, st', s')"
    for st st' and s s' :: "'w sys" and res
    using that by (rule status_reconcile_fixed)
qed (auto simp: fixed_conditions_def)


lemma status_push_statics:
  "status_push p (ReconcileContext_new c identity) sm st s = (res, st', s') \<Longrightarrow> same_statics s s'"
  by (auto simp: status_push_def Let_def same_statics_def frame_simps
      split: prod.splits sum.splits dest!: api_same_statics(3) api_same_statics(4))

lemma status_reconcile_statics:
  assumes "status_reconcile p (ReconcileContext_new c identity) st s = (res, st', s')"
  shows "same_statics s s'"
proof -
  obtain sm st1 s1 where sample: "status_sample p st s = (sm, st1, s1)" by (metis prod.collapse)
  have "same_statics s s1"
    using status_sample_facts(1) [OF sample] by (simp add: adds_def)
  then show ?thesis
    using assms sample
    by (auto simp: status_reconcile_def split: if_splits
        intro: same_statics_trans dest!: status_push_statics)
qed

section \<open>The detectors\<close>

lemma time_slip_eq:
  assumes "x = int (unat now) - int (unat prev_unix) - int ((unat now_ms - unat prev_ms) div 1000)"
    and "\<bar>x\<bar> < 2 ^ 63"
  shows "time_slip prev_unix prev_ms now now_ms \<longleftrightarrow> 5 < \<bar>x\<bar>"
proof -
  let ?m = "saturating_sub now_ms prev_ms div 1000"
  have "unat ?m = (unat now_ms - unat prev_ms) div 1000" by (simp add: unat_div)
  then have "?m = word_of_int (int ((unat now_ms - unat prev_ms) div 1000))"
    by (metis of_int_of_nat_eq word_eq_of_nat)
  moreover have "now = word_of_int (int (unat now))" "prev_unix = word_of_int (int (unat prev_unix))"
    by simp_all
  ultimately have "now - prev_unix - ?m = word_of_int x"
    using assms(1) by (metis of_int_diff)
  moreover have "sint (signed_abs (word_of_int x :: i64)) = \<bar>x\<bar>"
    using assms(2) by (intro sint_signed_abs) simp
  ultimately show ?thesis
    by (simp add: time_slip_def Let_def word_sless_alt HAUNTED_SLIP_SECS_def)
qed

lemma slip_arith:
  fixes a m1 m2 m3 m4 :: nat
  assumes "a \<le> m1" "m1 \<le> m2" "m2 \<le> m3" "m3 \<le> m4" "m2 - m1 \<le> 3000" "m4 - m3 \<le> 3000"
  shows "\<bar>int ((m3 - a) div 1000) - int ((m1 - a) div 1000) - int ((m4 - m2) div 1000)\<bar> \<le> 5"
proof -
  define d1 d3 d where "d1 = (m1 - a) div 1000" and "d3 = (m3 - a) div 1000" and "d = (m4 - m2) div 1000"
  have "d1 * 1000 + a \<le> m1" "m1 < d1 * 1000 + 1000 + a"
    using div_bounds [of 1000 "m1 - a"] assms(1) by (simp_all add: d1_def)
  moreover have "d3 * 1000 + a \<le> m3" "m3 < d3 * 1000 + 1000 + a"
    using div_bounds [of 1000 "m3 - a"] assms(1-3) by (simp_all add: d3_def)
  moreover have "d * 1000 + m2 \<le> m4" "m4 < d * 1000 + 1000 + m2"
    using div_bounds [of 1000 "m4 - m2"] assms(3,4) by (simp_all add: d_def)
  moreover have "m2 \<le> m1 + 3000" "m4 \<le> m3 + 3000" using assms(5,6) by simp_all
  ultimately have "\<bar>int d3 - int d1 - int d\<bar> \<le> 5" using assms(2-4) by linarith
  then show ?thesis by (simp add: d1_def d3_def d_def)
qed
text \<open>
  A clock that is not anchored again between two pushes does not slip, if each pair of
  readings of the two clocks is taken within three seconds.
\<close>

lemma no_time_slip:
  assumes wc: "anchored wc" and boot: "anchor_boot_ms wc \<le> m1"
    and order: "m1 \<le> m2" "m2 \<le> m3" "m3 \<le> m4"
    and gaps: "unat m2 - unat m1 \<le> 3000" "unat m4 - unat m3 \<le> 3000"
  shows "\<not> time_slip (unix_now_secs wc m1) m2 (unix_now_secs wc m3) m4"
proof -
  define x where "x = int (unat (unix_now_secs wc m3)) - int (unat (unix_now_secs wc m1))
    - int ((unat m4 - unat m2) div 1000)"
  have "\<bar>x\<bar> \<le> 5"
    using slip_arith [of "unat (anchor_boot_ms wc)" "unat m1" "unat m2" "unat m3" "unat m4"]
      boot order gaps
    by (simp add: x_def unat_unix_now [OF wc] word_le_nat_alt)
  then show ?thesis
    using time_slip_eq [OF x_def] by simp
qed

text \<open>While the clock was never anchored it stands at 0, and six seconds without a push are a slip.\<close>

lemma time_slip_unanchored:
  "time_slip 0 prev_ms 0 now_ms \<longleftrightarrow> 6000 \<le> unat now_ms - unat prev_ms"
proof -
  let ?m = "(unat now_ms - unat prev_ms) div 1000"
  have "unat now_ms < 2 ^ 64" using unsigned_less [of now_ms] by simp
  then have "?m < 2 ^ 63" by (simp add: less_mult_imp_div_less)
  then have "int ?m < 2 ^ 63" by (metis of_nat_less_iff of_nat_numeral of_nat_power)
  then have "time_slip 0 prev_ms 0 now_ms \<longleftrightarrow> 5 < \<bar>- int ?m\<bar>"
    by (intro time_slip_eq) simp_all
  also have "\<dots> \<longleftrightarrow> 6 \<le> ?m" by auto
  also have "\<dots> \<longleftrightarrow> 6000 \<le> unat now_ms - unat prev_ms"
    by (simp add: less_eq_div_iff_mult_less_eq)
  finally show ?thesis .
qed

section \<open>Properties\<close>

text \<open>C9. When a round of the status reconciler pushes: exactly when MemoryPressure or one of the custom
  conditions differs from what is tracked, or the clock is anchored and the last push is 300
  seconds old. A round that does not push changes neither its state nor any static and sends
  nothing.\<close>

theorem status_round_pushes_iff:
  assumes "bounded_buffer (push p)" "status_sample p st s = (sm, st1, s1)"
    and "status_reconcile p (ReconcileContext_new c identity) st s = (res, st', s')"
  shows "(sm_push sm \<longleftrightarrow>
      (sm_free sm < MEMORY_PRESSURE_FREE_BYTES) \<noteq> cs_value (memory_pressure (sr_tracker st)) \<or>
      statuses (sm_evaluated sm) \<noteq> tracked (ls_custom (sr_state st)) \<or>
      sm_now sm \<noteq> 0 \<and> 300 \<le> unat (sm_now sm) - unat (sr_last_status_update st)) \<and>
    (if sm_push sm then sent s' \<noteq> sent s
     else res = Inr () \<and> st' = st \<and> same_statics s s' \<and> sent s' = sent s)"
proof -
  note facts = status_sample_facts [OF assms(2)]
  have due: "due (sm_now sm) (sr_last_status_update st) \<longleftrightarrow>
      sm_now sm \<noteq> 0 \<and> 300 \<le> unat (sm_now sm) - unat (sr_last_status_update st)"
    by (simp add: due_def STATUS_UPDATE_PERIOD_SECS_def word_le_nat_alt)
  have "if sm_push sm then sent s' \<noteq> sent s
     else res = Inr () \<and> st' = st \<and> same_statics s s' \<and> sent s' = sent s"
    using assms(1,3)
  proof (cases rule: status_reconcile_cases)
    case (quiet sm' t1)
    with assms(2) show ?thesis by (simp add: adds_def)
  next
    case (push sm' st1' t1)
    with assms(2) have eq: "sm' = sm" "st1' = st1" "t1 = s1" by simp_all
    obtain inputs where "sm_evaluated sm = evaluate inputs" using facts(9) by blast
    from status_push_facts(3) [OF assms(1) this push(3) [unfolded eq]] push facts(1) show ?thesis
      by (auto simp: adds_def eq)
  qed
  with facts(2) due show ?thesis by simp
qed

text \<open>C23. The status patch of the firmware always fits its buffer, whatever the state of the node, its
  conditions and the times are: with the five entries that the evaluators give for any inputs, the
  body is built, and it is the JSON object with the four conditions of every node and the custom
  ones behind them.\<close>

theorem status_body_json:
  assumes "bounded_buffer push_bytes"
  shows "let patch = \<lparr>nsp_tracker = t, nsp_custom = custom_entries (evaluate inputs) cu, nsp_heartbeat_unix = hb\<rparr>
    in NodeStatusPatch_write_json push_bytes patch [] = Some (json_render (status_json patch))"
  using bounded_buffer.NodeStatusPatch_write [OF assms] status_text_json custom_entries_plain
    length_status_text [of "\<lparr>nsp_tracker = t, nsp_custom = custom_entries (evaluate inputs) cu, nsp_heartbeat_unix = hb\<rparr>"]
    custom_entries_size length_custom_entries
  by (simp add: Let_def)

lemma status_body_json_witness:
  "let patch = \<lparr>nsp_tracker = NodeCondTracker_new 0,
      nsp_custom = custom_entries (evaluate starved) (CustomCondTracker_new 0), nsp_heartbeat_unix = 0\<rparr>
   in NodeStatusPatch_write_json bounded_push patch [] = Some (json_render (status_json patch))"
  by (rule status_body_json [OF ref_buffer.bounded_buffer_axioms])


text \<open>C28. No push fails for want of room or of a body: an error of a round is an error of the transport or
  a status other than 200.\<close>

theorem status_round_errors:
  assumes "bounded_buffer (push p)" "status_reconcile p (ReconcileContext_new c identity) st s = (Inl e, st', s')"
  shows "\<exists>operation x. e = Api operation x \<or>
    (\<exists>n. e = UnexpectedStatus operation n \<and> n \<noteq> 200)"
  using assms
proof (cases rule: status_reconcile_cases)
  case (push sm st1 s1)
  obtain inputs where "sm_evaluated sm = evaluate inputs"
    using status_sample_facts(9) [OF push(1)] by blast
  from status_push_errors [OF assms(1) this push(3)] show ?thesis .
qed simp

text \<open>C20. A change whose push fails is not pushed again: if a round fails, and the next samples show the
  same conditions before the 300 seconds are over, the next round sends nothing, although the
  server never got the change.\<close>

theorem failed_push_not_retried:
  assumes "bounded_buffer (push p)" "status_sample p st s = (sm, st1, s1)" "sm_push sm"
    and fail: "status_reconcile p (ReconcileContext_new c identity) st s = (Inl e, st', s')"
    and sample: "status_sample p st' t = (sm2, st2, t2)"
    and same: "(sm_free sm2 < MEMORY_PRESSURE_FREE_BYTES) = (sm_free sm < MEMORY_PRESSURE_FREE_BYTES)"
      "statuses (sm_evaluated sm2) = statuses (sm_evaluated sm)"
    and early: "\<not> due (sm_now sm2) (sr_last_status_update st)"
  shows "status_reconcile p (ReconcileContext_new c identity) st' t = (Inr (), st', t2) \<and> sent t2 = sent t"
proof -
  note facts = status_sample_facts [OF assms(2)] and facts2 = status_sample_facts [OF sample]
  obtain inputs where ev: "sm_evaluated sm = evaluate inputs" using facts(9) by blast
  have "status_push p (ReconcileContext_new c identity) sm st1 s1 = (Inl e, st', s')"
    using assms(2,3) fail by (simp add: status_reconcile_def)
  from status_push_facts(2) [OF assms(1) ev this] have st': "st' = attempted st1" by simp
  have "\<not> sm_push sm2"
    using facts2(2) facts(3,4,6) same early by (simp add: st' attempted_def)
  with facts2(1,5) sample show ?thesis by (simp add: status_reconcile_def adds_def)
qed

text \<open>Ready, DiskPressure and PIDPressure keep the value and the time they had when the reconciler
  started, after any number of rounds and whatever else happens to the shared state.\<close>

lemma status_fixed_conditions:
  assumes "status_reconciler p c identity tracker custom rounds s = (st', s')"
  shows "ready (sr_tracker st') = ready tracker \<and> disk_pressure (sr_tracker st') = disk_pressure tracker \<and>
    pid_pressure (sr_tracker st') = pid_pressure tracker"
proof -
  obtain st s1 where new: "StatusReconciler_new p tracker custom s = (st, s1)" by fastforce
  have "sr_tracker st = tracker"
    using new by (auto simp: StatusReconciler_new_def Let_def split: prod.splits)
  then have "fixed_conditions tracker st s1" by (simp add: fixed_conditions_def)
  then have "fixed_conditions tracker st' s'"
    using status_task.run_inv [of tracker st s1 rounds p c identity st' s'] assms new
    by (simp add: status_reconciler_def run_def)
  then show ?thesis by (simp add: fixed_conditions_def)
qed

text \<open>What the two detectors see, and what they make of it.\<close>

lemma status_sample_haunted:
  assumes "status_sample p st s = (sm, st', s')"
  shows "cc_status (ev_haunted (sm_evaluated sm)) = CondTrue \<longleftrightarrow>
    bssid_flip (ls_prev_bssid (sr_state st)) (WIFI_BSSID (wifi s)) \<or>
    time_slip (ls_prev_unix (sr_state st)) (ls_prev_mono_ms (sr_state st)) (sm_now sm) (sm_now_ms sm)"
proof -
  obtain now s1 where 1: "unix_now p s = (now, s1)" by fastforce
  obtain now_ms s2 where 2: "now_millis p s1 = (now_ms, s2)" by fastforce
  obtain free s3 where 3: "free_heap p s2 = (free, s3)" by fastforce
  obtain uptime s4 where 4: "now_secs p s3 = (uptime, s4)" by fastforce
  have "wifi s3 = wifi s"
    using unix_now_frame [OF 1] now_millis_frame [OF 2] free_heap_frame [OF 3]
    by (simp add: same_statics_def)
  with assms show ?thesis
    by (auto simp: status_sample_def Let_def 1 2 3 4 evaluate_def eval_haunted_def split: prod.splits if_splits)
qed

lemma status_sample_now:
  assumes "status_sample p st s = (sm, st', s')" "anchor_unix (clock s) \<noteq> 0"
  shows "sm_now sm = unix_now_secs (clock s) (fst (instant_millis p (world s)))"
  using assms
  by (auto simp: status_sample_def Let_def unix_now_def now_millis_def split: prod.splits)

text \<open>C29. On an anchored node Haunted means what it says: if every pair of clock readings in a round is
  taken within three seconds, a round reports Haunted exactly when the link is associated to
  another access point than at the last push, whatever time has passed; TimeSlipped never adds to
  that while nobody anchors the clock anew.\<close>

theorem haunted_means_new_access_point:
  assumes sample: "status_sample p st s = (sm, st1, s1)" and clock: "anchored (clock s)"
    and last: "ls_prev_unix (sr_state st) = unix_now_secs (clock s) m1" "ls_prev_mono_ms (sr_state st) = m2"
      "ls_prev_bssid (sr_state st) = bssid_to_u64 a"
    and here: "WIFI_BSSID (wifi s) = bssid_to_u64 b"
    and order: "anchor_boot_ms (clock s) \<le> m1" "m1 \<le> m2" "m2 \<le> fst (instant_millis p (world s))"
      "fst (instant_millis p (world s)) \<le> sm_now_ms sm"
    and gaps: "unat m2 - unat m1 \<le> 3000"
      "unat (sm_now_ms sm) - unat (fst (instant_millis p (world s))) \<le> 3000"
  shows "cc_status (ev_haunted (sm_evaluated sm)) = CondTrue \<longleftrightarrow>
    a \<noteq> b \<and> a \<noteq> (0, 0, 0, 0, 0, 0) \<and> b \<noteq> (0, 0, 0, 0, 0, 0)"
proof -
  have "sm_now sm = unix_now_secs (clock s) (fst (instant_millis p (world s)))"
    using status_sample_now [OF sample] clock by (simp add: anchored_def)
  then have "\<not> time_slip (ls_prev_unix (sr_state st)) (ls_prev_mono_ms (sr_state st)) (sm_now sm) (sm_now_ms sm)"
    using no_time_slip [OF clock order gaps] by (simp add: last)
  then show ?thesis
    unfolding status_sample_haunted [OF sample] last here bssid_flip_def bssid_to_u64_inj bssid_to_u64_zero
    by auto
qed


section \<open>Examples\<close>

text \<open>A node that is cut off from its API server, on the sample state.\<close>

definition cut_off :: "(u64 \<times> bytes) platform" where
  "cut_off = offline (sample_env ''heinrich'')"

lemma cut_off_simps [simp]: "bounded_buffer (push cut_off)" "env cut_off = sample_env ''heinrich''"
  by (simp_all add: cut_off_def)

lemma cut_off_exchange: "exchange cut_off c m ct path b w = (Inl (Tcp ''TimedOut''), w)"
  by (simp add: exchange_def cut_off_def offline_def ApiError_from_ConnectError_def)

lemma cut_off_readings:
  "now_millis cut_off s = (fst (world s), s)" "now_secs cut_off s = (fst (world s) div 1000, s)"
  "free_heap cut_off s = (61440, s)"
  by (simp_all add: now_millis_def now_secs_def free_heap_def cut_off_def offline_def replay_def)

lemma instant_cut_off: "instant_millis cut_off w = (fst w, w)"
  by (simp add: cut_off_def offline_def replay_def)

definition first_inputs :: CustomCondInputs where
  "first_inputs = \<lparr>heap_free_bytes = 61440, uptime_secs = 4, wifi_reconnects_5min = 0,
     renewal_count = 0, bssid_changed = False, time_slipped = False\<rparr>"

text \<open>The state of a reconciler started on the sample state, and of one that has observed once.\<close>

definition reconciler_with :: "CustomCondTracker \<Rightarrow> StatusReconciler" where
  "reconciler_with custom = \<lparr>sr_tracker = NodeCondTracker_new 0, sr_last_status_update = 0,
     sr_state = \<lparr>ls_custom = custom, ls_prev_assoc_total = 0, ls_prev_bssid = 0, ls_prev_unix = 0,
       ls_prev_mono_ms = 4200, ls_status_ok_idx = 0\<rparr>\<rparr>"

definition first_sample :: sample where
  "first_sample = \<lparr>sm_now = 0, sm_now_ms = 4200, sm_free = 61440, sm_assoc_total = 0, sm_bssid = 0,
     sm_evaluated = evaluate first_inputs, sm_push = True\<rparr>"

lemma cut_off_sample:
  assumes "ls_prev_assoc_total (sr_state st) = 0" "ls_prev_bssid (sr_state st) = 0"
    "ls_prev_unix (sr_state st) = 0" "ls_prev_mono_ms (sr_state st) = 4200"
    "\<not> cs_value (memory_pressure (sr_tracker st))"
  shows "status_sample cut_off st sample_sys =
    (first_sample\<lparr>sm_push := fst (observe_custom (evaluate first_inputs) 0 (ls_custom (sr_state st)))\<rparr>,
     st\<lparr>sr_state := (sr_state st)\<lparr>ls_custom :=
       snd (observe_custom (evaluate first_inputs) 0 (ls_custom (sr_state st)))\<rparr>\<rparr>, sample_sys)"
proof -
  have sys: "anchor_unix (clock sample_sys) = 0" "wifi sample_sys = wifi_init"
    "RENEWAL_COUNT sample_sys = 0" "world sample_sys = (4200, [])"
    by (simp_all add: sample_sys_def sys_init_def wall_clock_init_def)
  have slip: "\<not> time_slip 0 4200 0 4200" by (simp add: time_slip_unanchored)
  show ?thesis
    using assms
    by (cases "sr_tracker st"; cases "sr_state st"; cases st)
      (simp add: status_sample_def unix_now_unanchored_eq [OF sys(1)] cut_off_readings sys slip
        wifi_init_def bssid_flip_def first_inputs_def first_sample_def CondState_observe_def
        MEMORY_PRESSURE_FREE_BYTES_def Let_def split_def)
qed

lemma observed_inputs:
  "fst (observe_custom (evaluate first_inputs) 0 (CustomCondTracker_new 0))"
  "\<not> fst (observe_custom (evaluate first_inputs) 0
      (snd (observe_custom (evaluate first_inputs) 0 (CustomCondTracker_new 0))))"
proof -
  let ?o = "observe_custom (evaluate first_inputs) 0"
  note facts = observe_custom_facts [of "evaluate first_inputs" 0]
  have "tracked (snd (?o (CustomCondTracker_new 0))) = statuses (evaluate first_inputs)"
    using facts(2) by (metis prod.collapse)
  then show "\<not> fst (?o (snd (?o (CustomCondTracker_new 0))))"
    using facts(1) by (metis prod.collapse)
  have "statuses (evaluate first_inputs) \<noteq> tracked (CustomCondTracker_new 0)"
    by (simp add: statuses_def tracked_def evaluate_def eval_caffeinated_def first_inputs_def
        CustomCondTracker_new_def CustomCondState_new_def CAFFEINATED_FRESH_SECS_def)
  then show "fst (?o (CustomCondTracker_new 0))"
    using facts(1) by (metis prod.collapse)
qed

definition fresh :: StatusReconciler where
  "fresh = reconciler_with (CustomCondTracker_new 0)"

definition observed :: StatusReconciler where
  "observed = reconciler_with (snd (observe_custom (evaluate first_inputs) 0 (CustomCondTracker_new 0)))"

lemma cut_off_samples:
  "status_sample cut_off fresh sample_sys = (first_sample, observed, sample_sys)"
  "status_sample cut_off (attempted observed) sample_sys
    = (first_sample\<lparr>sm_push := False\<rparr>, attempted observed, sample_sys)"
proof -
  have mp: "\<not> cs_value (memory_pressure (sr_tracker (reconciler_with cu)))" for cu
    by (simp add: reconciler_with_def NodeCondTracker_new_def CondState_new_def)
  show "status_sample cut_off fresh sample_sys = (first_sample, observed, sample_sys)"
    using cut_off_sample [of fresh] mp observed_inputs(1)
    by (simp add: fresh_def observed_def) (simp add: reconciler_with_def first_sample_def)
  let ?o = "observe_custom (evaluate first_inputs) 0"
  have "snd (?o (snd (?o (CustomCondTracker_new 0)))) = snd (?o (CustomCondTracker_new 0))"
    using observe_custom_facts(3) observed_inputs(2) by (metis prod.collapse)
  then show "status_sample cut_off (attempted observed) sample_sys
    = (first_sample\<lparr>sm_push := False\<rparr>, attempted observed, sample_sys)"
    using cut_off_sample [of "attempted observed"] mp observed_inputs(2)
    by (simp add: attempted_def observed_def reconciler_with_def)
qed

lemma first_sample_push: "sm_push first_sample" "sm_evaluated first_sample = evaluate first_inputs"
  by (simp_all add: first_sample_def)

lemma cut_off_patch:
  "fst (patch_node_status cut_off (KubeApi_new sample_client) sample_identity (sr_tracker observed)
      (custom_entries (sm_evaluated first_sample) (ls_custom (sr_state observed))) (sm_now first_sample) t)
    = Inl (Api ''node status'' (Tcp ''TimedOut''))"
proof -
  let ?entries = "custom_entries (sm_evaluated first_sample) (ls_custom (sr_state observed))"
  let ?ns = "\<lparr>nsp_tracker = sr_tracker observed, nsp_custom = ?entries,
    nsp_heartbeat_unix = sm_now first_sample\<rparr>"
  have "NodeStatusPatch_write_json (push cut_off) ?ns [] = Some (status_text ?ns)"
    using bounded_buffer.NodeStatusPatch_write [of "push cut_off" ?ns] length_status_text [of ?ns]
      custom_entries_size length_custom_entries
    by (simp add: first_sample_push)
  then show ?thesis
    by (simp add: patch_node_status_def patch_strategic_def request_def cut_off_exchange)
qed

lemma status_push_patch_fails:
  assumes "\<And>t. fst (patch_node_status p (KubeApi_new c) identity (sr_tracker st)
    (custom_entries (sm_evaluated sm) (ls_custom (sr_state st))) (sm_now sm) t) = Inl e"
  obtains s' where "status_push p (ReconcileContext_new c identity) sm st s = (Inl e, attempted st, s')"
proof -
  have "\<exists>u. patch_node_status p (KubeApi_new c) identity (sr_tracker st)
    (custom_entries (sm_evaluated sm) (ls_custom (sr_state st))) (sm_now sm) t = (Inl e, u)" for t
    using assms [of t] by (metis prod.collapse)
  then obtain u where "patch_node_status p (KubeApi_new c) identity (sr_tracker st)
    (custom_entries (sm_evaluated sm) (ls_custom (sr_state st))) (sm_now sm) t = (Inl e, u t)" for t
    by metis
  then show thesis
    using that by (simp add: status_push_def attempted_def Let_def)
qed

lemma cut_off_round:
  obtains s' where "status_reconcile cut_off (ReconcileContext_new sample_client sample_identity) fresh sample_sys
    = (Inl (Api ''node status'' (Tcp ''TimedOut'')), attempted observed, s')"
proof -
  obtain s' where "status_push cut_off (ReconcileContext_new sample_client sample_identity) first_sample observed sample_sys
    = (Inl (Api ''node status'' (Tcp ''TimedOut'')), attempted observed, s')"
    by (rule status_push_patch_fails [OF cut_off_patch])
  then show thesis
    using that by (simp add: status_reconcile_def cut_off_samples first_sample_push(1))
qed

lemma status_round_pushes_iff_witness:
  "sent (snd (snd (status_reconcile cut_off (ReconcileContext_new sample_client sample_identity) fresh sample_sys))) \<noteq> sent sample_sys"
proof -
  obtain s' where round: "status_reconcile cut_off (ReconcileContext_new sample_client sample_identity) fresh sample_sys
    = (Inl (Api ''node status'' (Tcp ''TimedOut'')), attempted observed, s')"
    by (rule cut_off_round)
  show ?thesis
    using status_round_pushes_iff [OF _ cut_off_samples(1) round] first_sample_push(1) by (simp add: round)
qed


lemma status_round_errors_witness:
  "\<exists>operation x. Api ''node status'' (Tcp ''TimedOut'') = Api operation x \<or>
    (\<exists>n. Api ''node status'' (Tcp ''TimedOut'') = UnexpectedStatus operation n \<and> n \<noteq> 200)"
proof -
  obtain s' where round: "status_reconcile cut_off (ReconcileContext_new sample_client sample_identity) fresh sample_sys
    = (Inl (Api ''node status'' (Tcp ''TimedOut'')), attempted observed, s')"
    by (rule cut_off_round)
  show ?thesis by (rule status_round_errors [OF _ round]) simp
qed

lemma failed_push_not_retried_witness:
  "status_reconcile cut_off (ReconcileContext_new sample_client sample_identity) (attempted observed) sample_sys
    = (Inr (), attempted observed, sample_sys)"
proof -
  obtain s' where round: "status_reconcile cut_off (ReconcileContext_new sample_client sample_identity) fresh sample_sys
    = (Inl (Api ''node status'' (Tcp ''TimedOut'')), attempted observed, s')"
    by (rule cut_off_round)
  have "\<not> due (sm_now first_sample) (sr_last_status_update fresh)"
    by (simp add: due_def first_sample_def)
  then show ?thesis
    using failed_push_not_retried [OF _ cut_off_samples(1) first_sample_push(1) round cut_off_samples(2)]
    by simp
qed


lemma haunted_means_new_access_point_witness:
  "cc_status (ev_haunted (sm_evaluated (fst (status_sample cut_off
      (fresh\<lparr>sr_state := (sr_state fresh)\<lparr>ls_prev_unix := 1777736837,
        ls_prev_bssid := bssid_to_u64 (0, 17, 34, 51, 68, 85)\<rparr>\<rparr>)
      (sample_sys\<lparr>clock := set_wall_clock 1777736837 4200 wall_clock_init,
        wifi := \<lparr>WIFI_BSSID = bssid_to_u64 (0, 17, 34, 51, 68, 86), WIFI_ASSOCIATIONS_TOTAL = 2\<rparr>\<rparr>))))) = CondTrue"
proof -
  let ?clock = "set_wall_clock 1777736837 4200 wall_clock_init"
  let ?s = "sample_sys\<lparr>clock := ?clock,
    wifi := \<lparr>WIFI_BSSID = bssid_to_u64 (0, 17, 34, 51, 68, 86), WIFI_ASSOCIATIONS_TOTAL = 2\<rparr>\<rparr>"
  let ?st = "fresh\<lparr>sr_state := (sr_state fresh)\<lparr>ls_prev_unix := 1777736837,
    ls_prev_bssid := bssid_to_u64 (0, 17, 34, 51, 68, 85)\<rparr>\<rparr>"
  obtain sm st1 s1 where sample: "status_sample cut_off ?st ?s = (sm, st1, s1)" by (metis prod.collapse)
  have world: "world ?s = (4200, [])" by (simp add: sample_sys_def sys_init_def)
  obtain n where now: "unix_now cut_off ?s = (n, ?s)"
    by (cases "anchor_unix (clock ?s) = 0") (simp_all add: unix_now_def cut_off_readings)
  have "sm_now_ms sm = 4200"
    using sample
    by (simp add: status_sample_def now cut_off_readings world Let_def split: prod.splits) auto
  moreover have "anchored ?clock" "unix_now_secs ?clock 4200 = 1777736837" "anchor_boot_ms ?clock = 4200"
    by code_simp+
  moreover have "ls_prev_mono_ms (sr_state fresh) = 4200"
    by (simp add: fresh_def reconciler_with_def)
  ultimately have "cc_status (ev_haunted (sm_evaluated sm)) = CondTrue"
    using haunted_means_new_access_point [OF sample, of 4200 4200 "(0, 17, 34, 51, 68, 85)"
        "(0, 17, 34, 51, 68, 86)"]
    by (simp add: world instant_cut_off)
  then show ?thesis by (simp add: sample)
qed

end
