(* ===== verification/Kubelet.thy ===== *)
theory Kubelet
  imports Status
begin

text \<open>
  \<open>src/kubelet.rs\<close>: the bootstrap. It anchors the clock from the \<open>Date\<close> header of the API
  server, registers the node, creates the lease and pushes the first status. No failure
  stops it. The evaluation and the observation of the custom conditions are those of
  \<open>Status\<close>, which \<open>kubelet.rs\<close> repeats word for word.
\<close>

definition anchor_clock :: "'w platform \<Rightarrow> ApiClient \<Rightarrow> 'w sys \<Rightarrow> 'w sys" where
  "anchor_clock p c s =
     (let s = info [''anchoring wall clock from k3s (we have no RTC, only vibes)''] s in
      case get p c ''/version'' s of
        (Inr resp, s) \<Rightarrow>
          let s = info [''k3s version probe: HTTP '', fmt_display (rs_status resp), '' (server lives)''] s in
          (case header resp ''Date'' of
             Some date \<Rightarrow>
               (case parse_http_date date of
                  Some unix \<Rightarrow>
                    info [''wall clock anchored: '', fmt_display unix, '' unix ('', date, ''); time exists now'']
                      (anchor p unix s)
                | None \<Rightarrow> warn [''could not parse Date header: '', date] s)
           | None \<Rightarrow> warn [''no Date header in /version response''] s)
      | (Inl e, s) \<Rightarrow> warn [''failed to anchor clock, will retry: '', ApiError_debug e] s)"

definition body_text :: "Response \<Rightarrow> string" where
  "body_text resp = (case from_utf8 (rs_body resp) of Some t \<Rightarrow> t | None \<Rightarrow> ''<non-utf8>'')"

definition register_node :: "'w platform \<Rightarrow> ApiClient \<Rightarrow> NodeIdentity \<Rightarrow> 'w sys \<Rightarrow> 'w sys" where
  "register_node p c identity s =
     (let (now, s) = unix_now p s in
      case NodeRegistration_write_json (push p) (env p)
             \<lparr>nr_ip = ni_ip identity, nr_now_unix = now\<rparr> [] of
        None \<Rightarrow> warn [''node body build failed''] s
      | Some node_body \<Rightarrow>
      let s = info [''POST /api/v1/nodes (body: '', dec (length node_body), '' bytes, a bold introduction)''] s in
      case post p c ''/api/v1/nodes'' node_body s of
        (Inr resp, s) \<Rightarrow>
          if rs_status resp = 201 then
            info [''node registered ('', ni_name identity, ''); control plane has accepted the bit''] s
          else if rs_status resp = 409 then info [''node already exists, that's fine''] s
          else warn [''unexpected status '', fmt_display (rs_status resp), '' on Node POST: '',
                     body_text resp] s
      | (Inl e, s) \<Rightarrow> warn [''node POST failed: '', ApiError_debug e] s)"

definition boot_create_lease :: "'w platform \<Rightarrow> ApiClient \<Rightarrow> 'w sys \<Rightarrow> 'w sys" where
  "boot_create_lease p c s =
     (let (now, s) = unix_now p s in
      case LeaseBody_write_json (push p) (env p) now [] of
        None \<Rightarrow> warn [''lease body build failed''] s
      | Some lease_body \<Rightarrow>
      let s = info [''POST .../leases (initial: the contract)''] s in
      case post p c ''/apis/coordination.k8s.io/v1/namespaces/kube-node-lease/leases'' lease_body s of
        (Inr resp, s) \<Rightarrow>
          if rs_status resp = 201 then info [''lease created (we are now legally a node)''] s
          else if rs_status resp = 409 then info [''lease already exists, will renew via PUT''] s
          else warn [''unexpected status '', fmt_display (rs_status resp), '' on Lease POST''] s
      | (Inl e, s) \<Rightarrow> warn [''lease POST failed: '', ApiError_debug e] s)"

definition push_initial_status ::
    "'w platform \<Rightarrow> ApiClient \<Rightarrow> NodeIdentity \<Rightarrow> NodeCondTracker \<Rightarrow> CustomCondTracker \<Rightarrow> 'w sys
      \<Rightarrow> NodeCondTracker \<times> CustomCondTracker \<times> 'w sys" where
  "push_initial_status p c identity tracker custom s =
     (let (now, s) = unix_now p s;
          (free, s) = free_heap p s;
          (flipped, mp) = CondState_observe (free < MEMORY_PRESSURE_FREE_BYTES) now
                            (memory_pressure tracker);
          tracker = tracker\<lparr>memory_pressure := mp\<rparr>;
          (uptime, s) = now_secs p s;
          inputs = \<lparr>heap_free_bytes = free, uptime_secs = uptime, wifi_reconnects_5min = 0,
                    renewal_count = 0, bssid_changed = False, time_slipped = False\<rparr>;
          ev = evaluate inputs;
          (flipped, custom) = observe_custom ev now custom;
          entries = custom_entries ev custom
      in case NodeStatusPatch_write_json (push p)
                \<lparr>nsp_tracker = tracker, nsp_custom = entries, nsp_heartbeat_unix = now\<rparr> [] of
        None \<Rightarrow> (tracker, custom, warn [''status body build failed''] s)
      | Some body \<Rightarrow>
      let mp = cs_value (memory_pressure tracker);
          s = info [''PATCH /status (heap: '', fmt_display free, '' B, vibes: '',
                    if mp then ''concerning'' else ''immaculate'', '', MemoryPressure='',
                    if mp then ''true'' else ''false'', '') [initial]''] s;
          s = (case patch_strategic p c (as_str (ni_status_path identity)) body s of
                 (Inr resp, s) \<Rightarrow>
                   if rs_status resp = 200 then info [''status updated (we are observably alive)''] s
                   else warn [''status PATCH returned '', fmt_display (rs_status resp), '': '',
                              body_text resp] s
               | (Inl e, s) \<Rightarrow> warn [''status PATCH failed: '', ApiError_debug e] s)
      in case HeapAnnotationPatch_write_json (push p) free [] of
        None \<Rightarrow> (tracker, custom, s)
      | Some ann \<Rightarrow>
      (tracker, custom,
       case patch_merge p c (as_str (ni_node_path identity)) ann s of
         (Inr resp, s) \<Rightarrow>
           if rs_status resp = 200 then s
           else warn [''annotation PATCH returned '', fmt_display (rs_status resp)] s
       | (Inl e, s) \<Rightarrow> warn [''annotation PATCH failed: '', ApiError_debug e] s))"

definition bootstrap ::
    "'w platform \<Rightarrow> ApiClient \<Rightarrow> NodeIdentity \<Rightarrow> 'w sys
      \<Rightarrow> NodeCondTracker \<times> CustomCondTracker \<times> 'w sys" where
  "bootstrap p c identity s =
     (let s = anchor_clock p c s;
          s = register_node p c identity s;
          s = boot_create_lease p c s;
          (now, s) = unix_now p s
      in push_initial_status p c identity (NodeCondTracker_new now) (CustomCondTracker_new now) s)"

section \<open>The requests of the bootstrap\<close>

definition version_line :: request_line where
  "version_line = line_of ''GET'' ''application/json'' ''/version'' None"

definition node_text :: "build_env \<Rightarrow> Ipv4Addr \<Rightarrow> u64 \<Rightarrow> bytes" where
  "node_text e ip unix = concat (NodeRegistration_pieces e ip (timestamp unix))"

definition node_line :: "build_env \<Rightarrow> Ipv4Addr \<Rightarrow> u64 \<Rightarrow> request_line" where
  "node_line e ip unix =
     line_of ''POST'' ''application/json'' ''/api/v1/nodes'' (Some (node_text e ip unix))"

text \<open>
  The statics that no step of the bootstrap writes, and those that none but \<open>anchor_clock\<close> does.
\<close>

definition boot_frame :: "'w sys \<Rightarrow> 'w sys \<Rightarrow> bool" where
  "boot_frame s t \<longleftrightarrow> RENEWAL_COUNT t = RENEWAL_COUNT s \<and> wifi t = wifi s \<and> LED_SIGNAL t = LED_SIGNAL s"

lemma boot_frame_trans: "boot_frame s t \<Longrightarrow> boot_frame t u \<Longrightarrow> boot_frame s u"
  by (simp add: boot_frame_def)

lemma anchor_clock_sent:
  "sent (anchor_clock p c s) = sent s @ [version_line]" "boot_frame s (anchor_clock p c s)"
  by (auto simp: anchor_clock_def get_def Let_def frame_simps anchor_def now_millis_def
      boot_frame_def same_statics_def version_line_def adds_def
      split: prod.splits sum.splits option.splits dest!: request_adds)

text \<open>The clock after the first request: anchored exactly when a date could be read.\<close>

definition server_date :: "ApiError + Response \<Rightarrow> u64 option" where
  "server_date r = (case r of Inl e \<Rightarrow> None | Inr resp \<Rightarrow>
     (case header resp ''Date'' of None \<Rightarrow> None | Some date \<Rightarrow> parse_http_date date))"

lemma anchor_clock_clock:
  assumes "get p c ''/version'' (info [''anchoring wall clock from k3s (we have no RTC, only vibes)''] s) = (r, t)"
  shows "clock (anchor_clock p c s) =
    (case server_date r of None \<Rightarrow> clock s
     | Some unix \<Rightarrow> set_wall_clock unix (fst (instant_millis p (world t))) (clock s))"
proof -
  have "clock t = clock s"
    using assms request_adds [of p c _ _ _ _ _ r t] by (auto simp: get_def adds_def same_statics_def frame_simps)
  then show ?thesis
    using assms
    by (auto simp: anchor_clock_def server_date_def anchor_def now_millis_def frame_simps Let_def
        split: sum.splits option.splits prod.splits)
qed


lemma register_node_sent:
  assumes "bounded_buffer (push p)" "unix_now p s = (now, s1)"
  shows "sent (register_node p c identity s) = sent s @
      (if length (node_text (env p) (ni_ip identity) now) \<le> 2048
       then [node_line (env p) (ni_ip identity) now] else [])"
    and "boot_frame s (register_node p c identity s) \<and> clock (register_node p c identity s) = clock s"
  using bounded_buffer.NodeRegistration_write [OF assms(1)] unix_now_frame [OF assms(2)] assms(2)
  by (auto simp: register_node_def node_text_def node_line_def post_def Let_def frame_simps
      boot_frame_def same_statics_def adds_def split: prod.splits sum.splits if_splits
      dest!: request_adds)

lemma boot_create_lease_sent:
  assumes "bounded_buffer (push p)" "length (NODE_NAME (env p)) \<le> 65" "unix_now p s = (now, s1)"
  shows "sent (boot_create_lease p c s) = sent s @ [lease_create_line (env p) now]"
    and "boot_frame s (boot_create_lease p c s) \<and> clock (boot_create_lease p c s) = clock s"
  using bounded_buffer.LeaseBody_write_fits [OF assms(1,2)] unix_now_frame [OF assms(3)] assms(3)
  by (auto simp: boot_create_lease_def lease_create_line_def post_def Let_def frame_simps
      boot_frame_def same_statics_def adds_def split: prod.splits sum.splits if_splits
      dest!: request_adds)

text \<open>What the first status reads, one after the other, and the inputs of its evaluators.\<close>

definition first_readings :: "'w platform \<Rightarrow> 'w sys \<Rightarrow> u64 \<Rightarrow> usize \<Rightarrow> u64 \<Rightarrow> bool" where
  "first_readings p s now free uptime \<longleftrightarrow> (\<exists>s1 s2 s3. unix_now p s = (now, s1) \<and>
     free_heap p s1 = (free, s2) \<and> now_secs p s2 = (uptime, s3))"

definition fresh_start :: "usize \<Rightarrow> u64 \<Rightarrow> CustomCondInputs" where
  "fresh_start free uptime = \<lparr>heap_free_bytes = free, uptime_secs = uptime, wifi_reconnects_5min = 0,
     renewal_count = 0, bssid_changed = False, time_slipped = False\<rparr>"

lemma push_initial_status_facts:
  assumes buf: "bounded_buffer (push p)"
    and run: "push_initial_status p c identity t cu s = (t', cu', s')"
  obtains now free inputs where
    "sent s' = sent s @ [status_line_of identity
       \<lparr>nsp_tracker = t', nsp_custom = custom_entries (evaluate inputs) cu', nsp_heartbeat_unix = now\<rparr>,
       annotation_line identity free]"
    "fst (unix_now p s) = now" "heap_free_bytes inputs = free"
    "CondState_observe (free < MEMORY_PRESSURE_FREE_BYTES) now (memory_pressure t)
      = (cs_value (memory_pressure t) \<noteq> (free < MEMORY_PRESSURE_FREE_BYTES), memory_pressure t')"
    "t' = t\<lparr>memory_pressure := memory_pressure t'\<rparr>"
    "snd (observe_custom (evaluate inputs) now cu) = cu'"
    "boot_frame s s'" "clock s' = clock s"
    "\<exists>uptime. first_readings p s now free uptime \<and> inputs = fresh_start free uptime"
proof -
  obtain now s1 where 1: "unix_now p s = (now, s1)" by fastforce
  obtain free s2 where 2: "free_heap p s1 = (free, s2)" by fastforce
  obtain uptime s3 where 3: "now_secs p s2 = (uptime, s3)" by fastforce
  define inputs where "inputs = \<lparr>heap_free_bytes = free, uptime_secs = uptime,
    wifi_reconnects_5min = 0, renewal_count = 0, bssid_changed = False, time_slipped = False\<rparr>"
  obtain f mp where mp: "CondState_observe (free < MEMORY_PRESSURE_FREE_BYTES) now (memory_pressure t) = (f, mp)"
    by fastforce
  obtain g custom where cu: "observe_custom (evaluate inputs) now cu = (g, custom)" by fastforce
  let ?t = "t\<lparr>memory_pressure := mp\<rparr>"
  let ?ns = "\<lparr>nsp_tracker = ?t, nsp_custom = custom_entries (evaluate inputs) custom,
    nsp_heartbeat_unix = now\<rparr>"
  have fits: "NodeStatusPatch_write_json (push p) ?ns [] = Some (status_text ?ns)"
    using bounded_buffer.NodeStatusPatch_write [OF buf, of ?ns]
      length_status_text [of ?ns] custom_entries_size length_custom_entries
    by simp
  note ann = bounded_buffer.HeapAnnotationPatch_write [OF buf, of free]
  have frames: "adds [] s s3"
    unfolding adds_Nil [symmetric]
    using unix_now_frame [OF 1] free_heap_frame [OF 2] now_secs_frame [OF 3]
    by (auto intro: same_statics_trans)
  define ps where "ps = [''PATCH /status (heap: '', fmt_display free, '' B, vibes: '',
     if cs_value mp then ''concerning'' else ''immaculate'', '', MemoryPressure='',
     if cs_value mp then ''true'' else ''false'', '') [initial]'']"
  obtain r1 u1 where r1:
    "patch_strategic p c (as_str (ni_status_path identity)) (status_text ?ns) (info ps s3) = (r1, u1)"
    by fastforce
  define u2 where "u2 = (case (r1, u1) of
      (Inr resp, s) \<Rightarrow>
        if rs_status resp = 200 then info [''status updated (we are observably alive)''] s
        else warn [''status PATCH returned '', fmt_display (rs_status resp), '': '', body_text resp] s
    | (Inl e, s) \<Rightarrow> warn [''status PATCH failed: '', ApiError_debug e] s)"
  obtain r2 u3 where r2:
    "patch_merge p c (as_str (ni_node_path identity)) (concat (HeapAnnotation_pieces free)) u2 = (r2, u3)"
    by fastforce
  define u4 where "u4 = (case (r2, u3) of
      (Inr resp, s) \<Rightarrow>
        if rs_status resp = 200 then s
        else warn [''annotation PATCH returned '', fmt_display (rs_status resp)] s
    | (Inl e, s) \<Rightarrow> warn [''annotation PATCH failed: '', ApiError_debug e] s)"
  have res: "t' = ?t" "cu' = custom" "s' = u4"
    using run
    by (simp_all add: push_initial_status_def 1 2 3 mp inputs_def [symmetric] cu fits ann
        r1 [unfolded ps_def] r2 [unfolded u2_def prod.case] u4_def)
  have a1: "adds [status_line_of identity ?ns] (info ps s3) u1"
    using r1 by (auto simp: patch_strategic_def as_str_def status_line_of_def dest: request_adds)
  have a2: "sent u2 = sent u1 \<and> clock u2 = clock u1 \<and> boot_frame u1 u2"
    by (simp add: u2_def boot_frame_def frame_simps split: sum.splits)
  have a3: "adds [annotation_line identity free] u2 u3"
    using r2 by (auto simp: patch_merge_def as_str_def annotation_line_def dest: request_adds)
  have a4: "sent u4 = sent u3 \<and> clock u4 = clock u3 \<and> boot_frame u3 u4"
    by (simp add: u4_def boot_frame_def frame_simps split: sum.splits)
  have sent: "sent s' = sent s @ [status_line_of identity ?ns, annotation_line identity free]"
      "boot_frame s s'" "clock s' = clock s"
    using frames a1 a2 a3 a4 by (simp_all add: res adds_def boot_frame_def same_statics_def frame_simps)
  have "f = (cs_value (memory_pressure t) \<noteq> (free < MEMORY_PRESSURE_FREE_BYTES))"
    using CondState_observe_facts(1) [OF mp] by auto
  moreover have "first_readings p s now free uptime \<and> inputs = fresh_start free uptime"
    using 1 2 3 by (simp add: first_readings_def fresh_start_def inputs_def)
  then have "\<exists>uptime. first_readings p s now free uptime \<and> inputs = fresh_start free uptime" ..
  ultimately show thesis
    using that [of inputs now free] 1 mp cu sent by (simp add: res inputs_def)
qed

text \<open>The whole bootstrap, in the order of its requests.\<close>

lemma bootstrap_facts:
  assumes push: "bounded_buffer (push p)" and name: "length (NODE_NAME (env p)) \<le> 65"
    and boot: "bootstrap p c identity s = (t, cu, s')"
  obtains now1 now2 now3 now free inputs where
    "sent s' = sent s @ [version_line] @
      (if length (node_text (env p) (ni_ip identity) now1) \<le> 2048
       then [node_line (env p) (ni_ip identity) now1] else []) @
      [lease_create_line (env p) now2,
       status_line_of identity \<lparr>nsp_tracker = t, nsp_custom = custom_entries (evaluate inputs) cu,
         nsp_heartbeat_unix = now\<rparr>,
       annotation_line identity free]"
    "heap_free_bytes inputs = free"
    "cs_value (memory_pressure t) = (free < MEMORY_PRESSURE_FREE_BYTES)"
    "t = (NodeCondTracker_new now3)\<lparr>memory_pressure := memory_pressure t\<rparr>"
    "tracked cu = statuses (evaluate inputs)"
    "clock s' = clock (anchor_clock p c s)" "boot_frame s s'"
    "\<exists>u uptime. clock u = clock s' \<and> first_readings p u now free uptime \<and> inputs = fresh_start free uptime"
proof -
  let ?s1 = "anchor_clock p c s"
  let ?s2 = "register_node p c identity ?s1"
  let ?s3 = "boot_create_lease p c ?s2"
  obtain now1 u1 where n1: "unix_now p ?s1 = (now1, u1)" by fastforce
  obtain now2 u2 where n2: "unix_now p ?s2 = (now2, u2)" by fastforce
  obtain now3 s4 where n3: "unix_now p ?s3 = (now3, s4)" by fastforce
  have status: "push_initial_status p c identity (NodeCondTracker_new now3)
      (CustomCondTracker_new now3) s4 = (t, cu, s')"
    using boot n3 by (simp add: bootstrap_def Let_def)
  note s1 = anchor_clock_sent [where p = p and c = c and s = s]
  note s2 = register_node_sent [OF push n1, where c = c and identity = identity]
  note s3 = boot_create_lease_sent [OF push name n2, where c = c]
  note s4 = unix_now_frame [OF n3]
  from status show thesis
  proof (rule push_initial_status_facts [OF push])
    fix now free inputs
    assume sent: "sent s' = sent s4 @ [status_line_of identity
       \<lparr>nsp_tracker = t, nsp_custom = custom_entries (evaluate inputs) cu, nsp_heartbeat_unix = now\<rparr>,
       annotation_line identity free]"
      and free: "heap_free_bytes inputs = free"
      and mp: "CondState_observe (free < MEMORY_PRESSURE_FREE_BYTES) now (memory_pressure (NodeCondTracker_new now3))
        = (cs_value (memory_pressure (NodeCondTracker_new now3)) \<noteq> (free < MEMORY_PRESSURE_FREE_BYTES), memory_pressure t)"
      and t: "t = (NodeCondTracker_new now3)\<lparr>memory_pressure := memory_pressure t\<rparr>"
      and cu: "snd (observe_custom (evaluate inputs) now (CustomCondTracker_new now3)) = cu"
      and frame: "boot_frame s4 s'" "clock s' = clock s4"
      and readings: "\<exists>uptime. first_readings p s4 now free uptime \<and> inputs = fresh_start free uptime"
    from readings frame(2) have
      "\<exists>u uptime. clock u = clock s' \<and> first_readings p u now free uptime \<and> inputs = fresh_start free uptime"
      by auto
    moreover have "tracked cu = statuses (evaluate inputs)"
      using observe_custom_facts(2) [of "evaluate inputs" now "CustomCondTracker_new now3"] cu
      by (metis prod.collapse)
    moreover have "boot_frame s s'"
      using s1(2) s2(2) s3(2) s4 frame(1) by (simp add: boot_frame_def same_statics_def)
    moreover have "clock s' = clock ?s1"
      using s2(2) s3(2) s4 frame(2) by (simp add: same_statics_def)
    ultimately show thesis
      using that [where ?now1.0 = now1 and ?now2.0 = now2 and ?now3.0 = now3] sent free CondState_observe_facts(2) [OF mp] t
        s1(1) s2(1) s3(1) s4
      by simp
  qed
qed

section \<open>Properties\<close>

text \<open>C17. The clock is anchored by the server's date: when the answer to \<open>GET /version\<close> has a \<open>Date\<close>
  header in the format of HTTP, the anchor is exactly that date and time, taken at the reading of
  the monotonic clock behind the answer, and from then on the wall clock shows the date of the
  server plus the whole seconds since.\<close>

theorem clock_anchored_by_date:
  assumes answer: "get p c ''/version'' (info [''anchoring wall clock from k3s (we have no RTC, only vibes)''] s)
      = (Inr resp, t)"
    and date: "header resp ''Date'' = Some (imf_fixdate wd dt h mi sec)" "CHR '','' \<notin> set wd"
    and dt: "valid_date dt" "1970 \<le> year dt" "year dt \<le> 9999" "h < 24" "mi < 60" "sec < 60"
    and unix: "u = (civil_days dt - epoch_shift) * 86400 + h * 3600 + mi * 60 + sec" "0 < u"
  shows "clock (anchor_clock p c s)
      = \<lparr>anchor_unix = of_nat u, anchor_boot_ms = fst (instant_millis p (world t))\<rparr> \<and>
    unat (unix_now_secs (clock (anchor_clock p c s)) ms)
      = u + (unat ms - unat (fst (instant_millis p (world t)))) div 1000"
proof -
  let ?D = "civil_days dt - epoch_shift" and ?wc = "clock (anchor_clock p c s)"
  have "?D < 4000000" using civil_days_le [OF dt(1)] dt(3) by simp
  then have u: "u < 2 ^ 40" using unix(1) dt(4-6) by simp
  have "parse_http_date (imf_fixdate wd dt h mi sec) = Some (of_nat u)"
    using parse_imf_fixdate [OF date(2) dt(1,2), of h mi sec] dt(3-6) unix(1) by (simp add: add.assoc)
  then have wc: "?wc = \<lparr>anchor_unix = of_nat u, anchor_boot_ms = fst (instant_millis p (world t))\<rparr>"
    using anchor_clock_clock [OF answer] date(1) by (simp add: server_date_def set_wall_clock_def)
  have "unat (of_nat u :: u64) = u" using u by (intro unat_of_nat_small) simp
  moreover from this have "anchored ?wc"
    using u unix(2) by (auto simp: anchored_def wc)
  ultimately show ?thesis
    using unat_unix_now [of ?wc ms] wc by simp
qed

lemma clock_anchored_by_date_witness:
  "unat (unix_now_secs (clock (anchor_clock sample_node sample_client sample_sys)) 14200) = 1777736847"
proof -
  let ?s = "info [''anchoring wall clock from k3s (we have no RTC, only vibes)''] sample_sys"
  obtain resp w where ex: "exchange sample_node sample_client ''GET'' ''application/json'' ''/version'' None (world ?s)
      = (Inr resp, w)" and date: "header resp ''Date'' = Some ''Sat, 02 May 2026 15:47:17 GMT''"
    using sample_exchange [of "''GET''" "''/version''" "''application/json''" None "world ?s"]
    by (auto simp: dec.simps)
  have w: "fst w = 4200"
    using sample_exchange_clock [OF ex] by (simp add: sample_sys_def sys_init_def frame_simps)
  obtain t where answer: "get sample_node sample_client ''/version'' ?s = (Inr resp, t)" "world t = w"
    using ex by (simp add: get_def request_def)
  have dt: "imf_fixdate ''Sat'' (Date 2026 5 2) 15 47 17 = ''Sat, 02 May 2026 15:47:17 GMT''"
    "valid_date (Date 2026 5 2)" "civil_days (Date 2026 5 2) - epoch_shift = 20575"
    by code_simp+
  have "fst (instant_millis sample_node w) = 4200" using w by (simp add: sample_node_def replay_def)
  then show ?thesis
    using conjunct2 [OF clock_anchored_by_date [OF answer(1), of "''Sat''" "Date 2026 5 2" 15 47 17
      1777736837 14200]] date dt answer(2)
    by simp
qed

text \<open>C19. The bootstrap always makes the same five requests in the same order, whatever the server
  answers and however a request fails, for every node name of up to 47 bytes.\<close>

theorem bootstrap_requests:
  assumes "bounded_buffer (push p)" "length (NODE_NAME (env p)) \<le> 47"
    and "bootstrap p c identity s = (t, cu, s')"
  shows "map (\<lambda>l. (rq_method l, rq_path l)) (sent s') = map (\<lambda>l. (rq_method l, rq_path l)) (sent s) @
    [(''GET'', ''/version''), (''POST'', ''/api/v1/nodes''),
     (''POST'', ''/apis/coordination.k8s.io/v1/namespaces/kube-node-lease/leases''),
     (''PATCH'', ni_status_path identity), (''PATCH'', ni_node_path identity)]"
proof -
  have name: "length (NODE_NAME (env p)) \<le> 65" using assms(2) by simp
  have "length (node_text (env p) ip u) \<le> 2048" for ip u
    using length_NodeRegistration [of "env p" ip "timestamp u"] length_timestamp [of u]
      length_dotted_quad [of ip] assms(2)
    by (simp add: node_text_def)
  with assms(3) show ?thesis
    by (elim bootstrap_facts [OF assms(1) name])
      (simp add: version_line_def node_line_def lease_create_line_def status_line_of_def
        annotation_line_def line_of_def)
qed

lemma bootstrap_requests_witness:
  "map (\<lambda>l. (rq_method l, rq_path l))
     (sent (snd (snd (bootstrap (offline (sample_env ''heinrich'')) sample_client sample_identity sample_sys)))) =
   [(''GET'', ''/version''), (''POST'', ''/api/v1/nodes''),
    (''POST'', ''/apis/coordination.k8s.io/v1/namespaces/kube-node-lease/leases''),
    (''PATCH'', ''/api/v1/nodes/heinrich/status''), (''PATCH'', ''/api/v1/nodes/heinrich'')]"
proof -
  obtain t cu s' where boot: "bootstrap (offline (sample_env ''heinrich'')) sample_client sample_identity sample_sys
      = (t, cu, s')" by (metis prod.collapse)
  have "sent sample_sys = []" by (simp add: sample_sys_def sys_init_def)
  with bootstrap_requests [OF _ _ boot] show ?thesis
    by (simp add: boot sample_name) (simp add: sample_identity_def)
qed

text \<open>C32. A node with a name of 64 or 65 bytes boots but never registers: its paths fit, but the Node
  object never fits its buffer, at no address and no time, so the bootstrap leaves out the
  request that creates the node and goes on with the others.\<close>

theorem long_names_never_register:
  assumes "bounded_buffer (push p)" "64 \<le> length (NODE_NAME (env p))" "length (NODE_NAME (env p)) \<le> 65"
    and "bootstrap p c identity s = (t, cu, s')"
  shows "map (\<lambda>l. (rq_method l, rq_path l)) (sent s') = map (\<lambda>l. (rq_method l, rq_path l)) (sent s) @
    [(''GET'', ''/version''),
     (''POST'', ''/apis/coordination.k8s.io/v1/namespaces/kube-node-lease/leases''),
     (''PATCH'', ni_status_path identity), (''PATCH'', ni_node_path identity)]"
proof -
  have "\<not> length (node_text (env p) ip u) \<le> 2048" for ip u
    using length_NodeRegistration [of "env p" ip "timestamp u"] length_timestamp_ge [of u]
      length_dotted_quad_ge [of ip] assms(2)
    by (simp add: node_text_def)
  with assms(4) show ?thesis
    by (elim bootstrap_facts [OF assms(1,3)])
      (simp add: version_line_def lease_create_line_def status_line_of_def annotation_line_def line_of_def)
qed

lemma long_names_never_register_witness:
  "''/api/v1/nodes'' \<notin> set (map rq_path (sent (snd (snd (bootstrap
     (offline (sample_env (replicate 64 CHR ''n''))) sample_client sample_identity sample_sys)))))"
proof -
  obtain t cu s' where boot: "bootstrap (offline (sample_env (replicate 64 CHR ''n''))) sample_client
      sample_identity sample_sys = (t, cu, s')" by (metis prod.collapse)
  have "sent sample_sys = []" by (simp add: sample_sys_def sys_init_def)
  with long_names_never_register [OF _ _ _ boot]
  have "map (\<lambda>l. (rq_method l, rq_path l)) (sent s') = [(''GET'', ''/version''),
     (''POST'', ''/apis/coordination.k8s.io/v1/namespaces/kube-node-lease/leases''),
     (''PATCH'', ni_status_path sample_identity), (''PATCH'', ni_node_path sample_identity)]"
    by (simp add: sample_name)
  then have "map snd (map (\<lambda>l. (rq_method l, rq_path l)) (sent s')) = [''/version'',
     ''/apis/coordination.k8s.io/v1/namespaces/kube-node-lease/leases'',
     ni_status_path sample_identity, ni_node_path sample_identity]"
    by simp
  then have "map rq_path (sent s') = [''/version'',
     ''/apis/coordination.k8s.io/v1/namespaces/kube-node-lease/leases'',
     ni_status_path sample_identity, ni_node_path sample_identity]"
    by (simp add: comp_def)
  then show ?thesis by (simp add: boot) (simp add: sample_identity_def)
qed

text \<open>C18. The first status: the bootstrap returns the conditions it has just reported. Behind the anchoring of the clock it
  reads the wall clock, the free heap and the uptime, in this order. Ready is True,
  DiskPressure and PIDPressure are False, MemoryPressure says whether the free heap was below the
  threshold, every custom condition has the status the evaluators give for that heap, that uptime and
  a fresh start, that is no reconnect, no renewal, the same access point and a clock in step, and the status
  patch, sent before the annotation and with the time that was read, is the JSON object of exactly these conditions.\<close>

theorem bootstrap_reports_its_conditions:
  assumes "bounded_buffer (push p)" "length (NODE_NAME (env p)) \<le> 65"
    and "bootstrap p c identity s = (t, cu, s')"
  shows "\<exists>now free uptime u u1 u2 u3 pre.
    clock u = clock s' \<and> unix_now p u = (now, u1) \<and> free_heap p u1 = (free, u2) \<and>
    now_secs p u2 = (uptime, u3) \<and>
    (let inputs = \<lparr>heap_free_bytes = free, uptime_secs = uptime, wifi_reconnects_5min = 0,
           renewal_count = 0, bssid_changed = False, time_slipped = False\<rparr>;
         patch = \<lparr>nsp_tracker = t, nsp_custom = custom_entries (evaluate inputs) cu,
           nsp_heartbeat_unix = now\<rparr>
     in cs_value (ready t) \<and> \<not> cs_value (disk_pressure t) \<and> \<not> cs_value (pid_pressure t) \<and>
        cs_value (memory_pressure t) = (free < MEMORY_PRESSURE_FREE_BYTES) \<and>
        tracked cu = statuses (evaluate inputs) \<and>
        sent s' = pre @ [line_of ''PATCH'' ''application/strategic-merge-patch+json''
            (ni_status_path identity) (Some (json_render (status_json patch))),
          annotation_line identity free])"
  using assms(3)
proof (rule bootstrap_facts [OF assms(1,2)])
  fix now1 now2 now3 now free inputs
  assume sent: "sent s' = sent s @ [version_line] @
      (if length (node_text (env p) (ni_ip identity) now1) \<le> 2048
       then [node_line (env p) (ni_ip identity) now1] else []) @
      [lease_create_line (env p) now2,
       status_line_of identity \<lparr>nsp_tracker = t, nsp_custom = custom_entries (evaluate inputs) cu,
         nsp_heartbeat_unix = now\<rparr>,
       annotation_line identity free]"
    and mp: "cs_value (memory_pressure t) = (free < MEMORY_PRESSURE_FREE_BYTES)"
    and t: "t = (NodeCondTracker_new now3)\<lparr>memory_pressure := memory_pressure t\<rparr>"
    and cu: "tracked cu = statuses (evaluate inputs)"
    and readings: "\<exists>u uptime. clock u = clock s' \<and> first_readings p u now free uptime \<and>
      inputs = fresh_start free uptime"
  let ?patch = "\<lparr>nsp_tracker = t, nsp_custom = custom_entries (evaluate inputs) cu, nsp_heartbeat_unix = now\<rparr>"
  have ready: "cs_value (ready t) \<and> \<not> cs_value (disk_pressure t) \<and> \<not> cs_value (pid_pressure t)"
    by (subst t, subst (2) t, subst (3) t) (simp add: NodeCondTracker_new_def CondState_new_def)
  define pre where "pre = sent s @ [version_line] @
      (if length (node_text (env p) (ni_ip identity) now1) \<le> 2048
       then [node_line (env p) (ni_ip identity) now1] else []) @ [lease_create_line (env p) now2]"
  have line: "status_line_of identity ?patch = line_of ''PATCH'' ''application/strategic-merge-patch+json''
      (ni_status_path identity) (Some (json_render (status_json ?patch)))"
    unfolding status_line_of_def
    by (subst status_text_json) (simp_all add: custom_entries_plain)
  have sent: "sent s' = pre @ [status_line_of identity ?patch, annotation_line identity free]"
    using sent by (simp add: pre_def)
  from readings obtain u uptime u1 u2 u3 where "clock u = clock s'" "unix_now p u = (now, u1)"
    "free_heap p u1 = (free, u2)" "now_secs p u2 = (uptime, u3)" "inputs = fresh_start free uptime"
    by (auto simp: first_readings_def)
  then show ?thesis
    using ready mp cu sent [unfolded line]
    by (intro exI [of _ now] exI [of _ free] exI [of _ uptime] exI [of _ u] exI [of _ u1] exI [of _ u2]
        exI [of _ u3] exI [of _ pre]) (simp add: Let_def fresh_start_def)
qed

lemma bootstrap_reports_its_conditions_witness:
  "cs_value (ready (fst (bootstrap (offline (sample_env ''heinrich'')) sample_client sample_identity sample_sys)))"
proof -
  obtain t cu s' where boot: "bootstrap (offline (sample_env ''heinrich'')) sample_client sample_identity sample_sys
      = (t, cu, s')" by (metis prod.collapse)
  from bootstrap_reports_its_conditions [OF _ _ boot] show ?thesis by (auto simp: boot sample_name Let_def)
qed

end
