(* ===== verification/Lease.thy ===== *)
theory Lease
  imports Reconcilers
begin

text \<open>
  \<open>src/reconcilers/lease.rs\<close>: the lease reconciler. It renews the lease, counts the
  renewals in its own counter and in the static \<open>RENEWAL_COUNT\<close>, drives the LED and creates
  the lease anew when it is gone.
\<close>

definition FLAVOR_EVERY_N :: u32 where
  "FLAVOR_EVERY_N = 10"

datatype MilestoneLine = Plain string | Named string string

definition MILESTONES :: "(u32 \<times> MilestoneLine) list" where
  "MILESTONES =
     [(50, Plain ''halfway to nine hundred and fifty''),
      (100, Plain ''we have served the cluster for one thousand seconds''),
      (500, Plain ''the cluster has booted, deployed, and torn down workloads. we have renewed.''),
      (1000, Plain ''if i was real i would be a senior engineer by now''),
      (8640, Plain ''this is one day. this is what one day is.''),
      (60480, Named ''this is one week. '' '' has aged.'')]"

fun find_line :: "(u32 \<times> MilestoneLine) list \<Rightarrow> u32 \<Rightarrow> MilestoneLine option" where
  "find_line [] count = None"
| "find_line ((n, line) # ms) count = (if n = count then Some line else find_line ms count)"

definition milestone_for :: "u32 \<Rightarrow> MilestoneLine option" where
  "milestone_for count = find_line MILESTONES count"

definition FLAVOR_LINES :: "string list" where
  "FLAVOR_LINES =
     [''achieved enlightenment briefly. lost it.'',
      ''still here. unfortunately.'',
      ''etcd has seen things. I have not.'',
      ''no pods today. there are never pods.'',
      ''considered drifting NotReady on purpose. didn't.'',
      ''control plane noticed me, said nothing.'',
      ''wondering what 'Ready' really means.'',
      ''the heap is fine. I asked it.'',
      ''kube-state-metrics, do you read me?'',
      ''I exist therefore I PATCH.'',
      ''imagined being scheduled once. it was beautiful.'',
      ''another tick of the great reconciliation.'',
      ''node-lifecycle-controller and I have an understanding.'',
      ''if a node renews in a forest and no pod is bound to it...'',
      ''still cattle, never pets. except for the name.'',
      ''kubelet (allegedly).'']"

record LeaseReconciler =
  lr_healthy :: bool
  lr_renewal_count :: u32

definition LeaseReconciler_new :: LeaseReconciler where
  "LeaseReconciler_new = \<lparr>lr_healthy = False, lr_renewal_count = 0\<rparr>"

text \<open>The line logged for the renewal with number \<open>count\<close>.\<close>

definition renewal_line :: "build_env \<Rightarrow> u32 \<Rightarrow> string list" where
  "renewal_line e count =
     (case milestone_for count of
        Some (Plain m) \<Rightarrow> [''lease renewed (#'', fmt_display count, '', '', m, '')'']
      | Some (Named pre suf) \<Rightarrow>
          [''lease renewed (#'', fmt_display count, '', '', pre, NODE_NAME e, suf, '')'']
      | None \<Rightarrow>
          if count mod FLAVOR_EVERY_N = 0 then
            let idx = unat (count div FLAVOR_EVERY_N) mod length FLAVOR_LINES
            in [''lease renewed (#'', fmt_display count, '', '', FLAVOR_LINES ! idx, '')'']
          else [''lease renewed (#'', fmt_display count, '')''])"

definition lease_reconcile ::
    "'w platform \<Rightarrow> ReconcileContext \<Rightarrow> (LeaseReconciler, 'w) reconcile" where
  "lease_reconcile p ctx st s =
     (let (now, s) = unix_now p s in
      case renew_lease p (ctx_api ctx) (ctx_identity ctx) now s of
        (Inl e, s) \<Rightarrow> (Inl e, st, s)
      | (Inr Renewed, s) \<Rightarrow>
          let st = st\<lparr>lr_renewal_count := lr_renewal_count st + 1\<rparr>;
              s = s\<lparr>RENEWAL_COUNT := lr_renewal_count st\<rparr>;
              s = info (renewal_line (env p) (lr_renewal_count st)) s
          in if \<not> lr_healthy st
             then (Inr (), st\<lparr>lr_healthy := True\<rparr>, led_set Healthy s)
             else (Inr (), st, led_set Activity s)
      | (Inr Missing, s) \<Rightarrow>
          let s = warn [''lease vanished, recreating (someone deleted my contract)''] s;
              (now, s) = unix_now p s
          in case create_lease p (ctx_api ctx) now s of
               (Inl e, s) \<Rightarrow> (Inl e, st, s)
             | (Inr u, s) \<Rightarrow> (Inr (), st, s))"

definition lease_reconciler ::
    "'w platform \<Rightarrow> ApiClient \<Rightarrow> NodeIdentity \<Rightarrow> ('w sys \<Rightarrow> 'w sys) list \<Rightarrow> 'w sys
      \<Rightarrow> LeaseReconciler \<times> 'w sys" where
  "lease_reconciler p c identity rounds s =
     run p ''lease'' (lease_reconcile p) c identity rounds LeaseReconciler_new s"

section \<open>One round\<close>

lemma lease_reconcile_renewed:
  assumes "unix_now p s = (now, s1)" "renew_lease p (KubeApi_new c) identity now s1 = (Inr Renewed, s2)"
  shows "lease_reconcile p (ReconcileContext_new c identity) st s =
    (Inr (), \<lparr>lr_healthy = True, lr_renewal_count = lr_renewal_count st + 1\<rparr>,
     led_set (if lr_healthy st then Activity else Healthy)
       (info (renewal_line (env p) (lr_renewal_count st + 1))
         (s2\<lparr>RENEWAL_COUNT := lr_renewal_count st + 1\<rparr>)))"
  using assms by (cases st) (simp add: lease_reconcile_def Let_def)

text \<open>The counter and the static agree; the LED is told healthy exactly by the first renewal.\<close>

definition lease_inv :: "LeaseReconciler \<Rightarrow> 'w sys \<Rightarrow> bool" where
  "lease_inv st s \<longleftrightarrow> lr_renewal_count st = RENEWAL_COUNT s \<and>
     (\<not> lr_healthy st \<longrightarrow> lr_renewal_count st = 0)"

definition keeps_renewals :: "'w sys \<Rightarrow> 'w sys \<Rightarrow> bool" where
  "keeps_renewals s t \<longleftrightarrow> RENEWAL_COUNT t = RENEWAL_COUNT s"

lemma unix_now_keeps: "unix_now p s = (n, t) \<Longrightarrow> RENEWAL_COUNT t = RENEWAL_COUNT s"
  using unix_now_frame [of p s n t] by (simp add: same_statics_def)

lemma lease_reconcile_inv:
  assumes "lease_inv st s" "lease_reconcile p (ReconcileContext_new c identity) st s = (res, st', s')"
  shows "lease_inv st' s'"
  using assms
  by (auto simp: lease_reconcile_def lease_inv_def Let_def led_set_def frame_simps same_statics_def
      split: prod.splits sum.splits LeaseRenewal.splits if_splits
      dest!: api_same_statics(1) api_same_statics(2) unix_now_keeps)

interpretation lease_task: reconciler p "''lease''" "lease_reconcile p (ReconcileContext_new c identity)" lease_inv keeps_renewals
  for p :: "'w platform" and c identity
proof
  show "lease_inv st' s'" if "lease_inv st s" "lease_reconcile p (ReconcileContext_new c identity) st s = (res, st', s')"
    for st st' and s s' :: "'w sys" and res
    using that by (rule lease_reconcile_inv)
qed (auto simp: keeps_renewals_def lease_inv_def frame_simps wait_secs_def)

text \<open>What a round sends: a renewal, and a creation behind one that found no lease.\<close>

lemma lease_reconcile_sent:
  assumes "bounded_buffer (push p)" "length (NODE_NAME (env p)) \<le> 65"
    "lease_reconcile p (ReconcileContext_new c identity) st s = (res, st', s')"
  shows "\<exists>u. sent s' = sent s @ [lease_renew_line (env p) identity u] \<or>
    (\<exists>v. sent s' = sent s @ [lease_renew_line (env p) identity u, lease_create_line (env p) v])"
proof -
  obtain u s1 where now: "unix_now p s = (u, s1)" by fastforce
  obtain r s2 where renew: "renew_lease p (KubeApi_new c) identity u s1 = (r, s2)" by fastforce
  have s2: "sent s2 = sent s @ [lease_renew_line (env p) identity u]"
    using renew_lease_adds [OF assms(1,2) renew] unix_now_frame [OF now] by (simp add: adds_def)
  define ps where "ps = [''lease vanished, recreating (someone deleted my contract)'']"
  obtain v s3 where now': "unix_now p (warn ps s2) = (v, s3)" by fastforce
  obtain r' s4 where create: "create_lease p (KubeApi_new c) v s3 = (r', s4)" by fastforce
  have s4: "sent s4 = sent s2 @ [lease_create_line (env p) v]"
    using create_lease_adds [OF assms(1,2) create] unix_now_frame [OF now']
    by (simp add: adds_def frame_simps)
  have "sent s' = sent s2 \<or> sent s' = sent s4"
    using assms(3) create
    by (auto simp: lease_reconcile_def now renew now' [unfolded ps_def] Let_def frame_simps led_set_def
        split: sum.splits LeaseRenewal.splits if_splits)
  then show ?thesis using s2 s4 by auto
qed

lemma lease_reconcile_frame:
  assumes "lease_reconcile p (ReconcileContext_new c identity) st s = (res, st', s')"
  shows "clock s' = clock s \<and> wifi s' = wifi s"
  using assms
  by (auto simp: lease_reconcile_def Let_def led_set_def frame_simps same_statics_def
      split: prod.splits sum.splits LeaseRenewal.splits if_splits
      dest!: api_same_statics(1) api_same_statics(2) unix_now_frame)

section \<open>The log line of a renewal\<close>

lemma milestone_for_iff:
  "milestone_for n \<noteq> None \<longleftrightarrow> n \<in> {50, 100, 500, 1000, 8640, 60480}"
  by (auto simp: milestone_for_def MILESTONES_def)

text \<open>The index into the flavor lines is always in range.\<close>

lemma flavor_index: "unat (count div FLAVOR_EVERY_N) mod length FLAVOR_LINES < length FLAVOR_LINES"
  by (simp add: FLAVOR_LINES_def)

section \<open>Properties\<close>

lemma patch_merge_exchange:
  assumes "exchange p c ''PATCH'' ''application/merge-patch+json'' path (Some b) (world s) = (r, w)"
  shows "patch_merge p c path b s =
    (r, s\<lparr>world := w, sent := sent s @ [line_of ''PATCH'' ''application/merge-patch+json'' path (Some b)]\<rparr>)"
  using assms by (simp add: patch_merge_def request_def line_of_def)

text \<open>C11. A round of the lease reconciler by the status of the answer to its renewal. On 200 the counter
  and \<open>RENEWAL_COUNT\<close> advance together and the LED shows \<open>Healthy\<close> the first time and
  \<open>Activity\<close> later. On 404 the lease is created again with a second request and nothing is
  counted. On any other status the round fails with it and changes nothing.\<close>

theorem lease_round_by_status:
  assumes "bounded_buffer (push p)" "length (NODE_NAME (env p)) \<le> 65"
    and now: "unix_now p s = (now, s1)"
    and answer: "exchange p c ''PATCH'' ''application/merge-patch+json'' (ni_lease_path identity)
      (Some (lease_text (env p) now)) (world s1) = (Inr resp, w)"
    and round: "lease_reconcile p (ReconcileContext_new c identity) st s = (res, st', s')"
  shows "if rs_status resp = 200 then
      res = Inr () \<and> st' = \<lparr>lr_healthy = True, lr_renewal_count = lr_renewal_count st + 1\<rparr> \<and>
      RENEWAL_COUNT s' = lr_renewal_count st + 1 \<and>
      LED_SIGNAL s' = Some (if lr_healthy st then Activity else Healthy) \<and>
      sent s' = sent s @ [lease_renew_line (env p) identity now]
    else if rs_status resp = 404 then
      st' = st \<and> same_statics s s' \<and> (\<exists>v. sent s' = sent s @
        [lease_renew_line (env p) identity now, lease_create_line (env p) v])
    else
      res = Inl (UnexpectedStatus ''lease renewal'' (rs_status resp)) \<and> st' = st \<and>
      same_statics s s' \<and> sent s' = sent s @ [lease_renew_line (env p) identity now]"
proof -
  define s2 where "s2 = s1\<lparr>world := w, sent := sent s1 @ [lease_renew_line (env p) identity now]\<rparr>"
  have renew: "renew_lease p (KubeApi_new c) identity now s1 =
      (if rs_status resp = 200 then Inr Renewed else if rs_status resp = 404 then Inr Missing
       else Inl (UnexpectedStatus ''lease renewal'' (rs_status resp)), s2)"
    using bounded_buffer.LeaseBody_write_fits [OF assms(1,2)] patch_merge_exchange [OF answer]
    by (simp add: renew_lease_def as_str_def s2_def lease_renew_line_def)
  have s2: "same_statics s s2" "sent s2 = sent s @ [lease_renew_line (env p) identity now]"
    using unix_now_frame [OF now] by (simp_all add: s2_def same_statics_def)
  show ?thesis
  proof (cases "rs_status resp = 404")
    case True
    define ps where "ps = [''lease vanished, recreating (someone deleted my contract)'']"
    obtain v s3 where 3: "unix_now p (warn ps s2) = (v, s3)" by fastforce
    obtain r s4 where 4: "create_lease p (KubeApi_new c) v s3 = (r, s4)" by fastforce
    have "st' = st" "s' = s4"
      using round True 4 by (auto simp: lease_reconcile_def now renew 3 [unfolded ps_def] split: sum.splits)
    moreover have "adds [lease_create_line (env p) v] s3 s4"
      using create_lease_adds [OF assms(1,2) 4] .
    ultimately show ?thesis
      using True s2 unix_now_frame [OF 3] by (auto simp: adds_def same_statics_def frame_simps)
  next
    case False
    then show ?thesis
      using round s2
      by (cases st) (auto simp: lease_reconcile_def now renew Let_def led_set_def frame_simps)
  qed
qed

lemma lease_round_by_status_witness:
  "LED_SIGNAL (snd (snd (lease_reconcile sample_node (ReconcileContext_new sample_client sample_identity)
      LeaseReconciler_new sample_sys))) = Some Healthy \<and>
   RENEWAL_COUNT (snd (snd (lease_reconcile sample_node (ReconcileContext_new sample_client sample_identity)
      LeaseReconciler_new sample_sys))) = 1"
proof -
  let ?text = "lease_text (sample_env ''heinrich'') 0"
  have now: "unix_now sample_node sample_sys = (0, sample_sys)"
    by (simp add: unix_now_unanchored_eq sample_sys_def sys_init_def wall_clock_init_def)
  have "length ?text \<le> 512"
    using length_LeaseBody [of "sample_env ''heinrich''" "timestamp 0"] length_timestamp [of 0]
    by (simp add: lease_text_def sample_name)
  then have "length (dec (length ?text)) \<le> 3" by (intro length_dec_le) simp_all
  then obtain resp w where answer: "exchange sample_node sample_client ''PATCH'' ''application/merge-patch+json''
      (ni_lease_path sample_identity) (Some ?text) (world sample_sys) = (Inr resp, w)" "rs_status resp = 200"
    using sample_exchange [of "''PATCH''" "ni_lease_path sample_identity" "''application/merge-patch+json''"
        "Some ?text" "world sample_sys"]
    by (auto simp: sample_identity_def)
  have env: "env sample_node = sample_env ''heinrich''" "bounded_buffer (push sample_node)"
    by (simp_all add: sample_node_def)
  obtain res st' s' where round: "lease_reconcile sample_node (ReconcileContext_new sample_client sample_identity)
      LeaseReconciler_new sample_sys = (res, st', s')" by (metis prod.collapse)
  have "\<not> lr_healthy LeaseReconciler_new" "lr_renewal_count LeaseReconciler_new = 0"
    by (simp_all add: LeaseReconciler_new_def)
  with lease_round_by_status [OF env(2) _ now _ round] answer show ?thesis
    by (simp add: env sample_name round)
qed

text \<open>After any number of rounds, whatever the server answers and whatever the other tasks do to the
  rest of the shared state in between, \<open>RENEWAL_COUNT\<close> is the counter of the reconciler, and the
  counter is still zero as long as the LED was never told \<open>Healthy\<close>.\<close>

lemma lease_counter_mirrored:
  assumes "RENEWAL_COUNT s = 0" "\<And>f t. f \<in> set rounds \<Longrightarrow> RENEWAL_COUNT (f t) = RENEWAL_COUNT t"
    and "lease_reconciler p c identity rounds s = (st', s')"
  shows "RENEWAL_COUNT s' = lr_renewal_count st' \<and> (lr_healthy st' \<or> lr_renewal_count st' = 0)"
proof -
  have "lease_inv LeaseReconciler_new s" using assms(1) by (simp add: lease_inv_def LeaseReconciler_new_def)
  moreover have "keeps_renewals t (f t)" if "f \<in> set rounds" for f t
    using assms(2) [OF that] by (simp add: keeps_renewals_def)
  ultimately have "lease_inv st' s'"
    using lease_task.run_inv assms(3) unfolding lease_reconciler_def run_def Let_def by blast
  then show ?thesis by (auto simp: lease_inv_def)
qed

end
