(* ===== verification/Tasks.thy ===== *)
theory Tasks
  imports Kubelet Lease
begin

text \<open>
  The two reconcilers between their awaits. A task of the executor gives way only where it
  awaits: in \<open>Timer::after\<close> of \<open>Reconciler::run\<close> and in the requests of \<open>KubeApi\<close>.
  \<open>lease_resume\<close> and \<open>status_resume\<close> run a task from one such point to the next one; the phase
  says at which it stands and keeps the local variables that live across it. The await of a
  request covers the mutex around the client and the exchange, which use no static.

  That the pieces put together are the rounds of \<open>Reconcilers\<close> is \<open>lease_round_pieces\<close> and
  \<open>status_round_pieces\<close>.
\<close>

datatype lease_phase =
    LeaseWaiting
  | LeaseRenewing u64
  | LeaseCreating u64

text \<open>
  Behind the awaits: \<open>lease_renewed\<close> and \<open>lease_created\<close> go on with the outcome of the request,
  \<open>status_patched\<close> and \<open>status_annotated\<close> likewise.
\<close>

definition lease_renewed ::
    "'w platform \<Rightarrow> ReconcileError + LeaseRenewal \<Rightarrow> LeaseReconciler \<Rightarrow> 'w sys
      \<Rightarrow> lease_phase \<times> LeaseReconciler \<times> 'w sys" where
  [simp]: "lease_renewed p r st s =
     (case r of
        Inl e \<Rightarrow>
          (LeaseWaiting, st, warn [''lease'', '' reconcile failed: '', ReconcileError_display e] s)
      | Inr Renewed \<Rightarrow>
          let st = st\<lparr>lr_renewal_count := lr_renewal_count st + 1\<rparr>;
              s = s\<lparr>RENEWAL_COUNT := lr_renewal_count st\<rparr>;
              s = info (renewal_line (env p) (lr_renewal_count st)) s
          in if \<not> lr_healthy st
             then (LeaseWaiting, st\<lparr>lr_healthy := True\<rparr>, led_set Healthy s)
             else (LeaseWaiting, st, led_set Activity s)
      | Inr Missing \<Rightarrow>
          let s = warn [''lease vanished, recreating (someone deleted my contract)''] s;
              (now, s) = unix_now p s
          in (LeaseCreating now, st, s))"

definition lease_created ::
    "ReconcileError + unit \<Rightarrow> LeaseReconciler \<Rightarrow> 'w sys \<Rightarrow> lease_phase \<times> LeaseReconciler \<times> 'w sys" where
  [simp]: "lease_created r st s =
     (case r of
        Inl e \<Rightarrow>
          (LeaseWaiting, st, warn [''lease'', '' reconcile failed: '', ReconcileError_display e] s)
      | Inr u \<Rightarrow> (LeaseWaiting, st, s))"

fun lease_resume ::
    "'w platform \<Rightarrow> ApiClient \<Rightarrow> NodeIdentity \<Rightarrow> lease_phase \<times> LeaseReconciler \<times> 'w sys
      \<Rightarrow> lease_phase \<times> LeaseReconciler \<times> 'w sys" where
  "lease_resume p c identity (LeaseWaiting, st, s) =
     (let s = wait_secs p interval s;
          (now, s) = unix_now p s
      in (LeaseRenewing now, st, s))"
| "lease_resume p c identity (LeaseRenewing now, st, s) =
     (let (r, s) = renew_lease p (KubeApi_new c) identity now s in lease_renewed p r st s)"
| "lease_resume p c identity (LeaseCreating now, st, s) =
     (let (r, s) = create_lease p (KubeApi_new c) now s in lease_created r st s)"

text \<open>
  A task that was spawned runs when the executor first polls it. The status task makes its reconciler then, so
  until then only the trackers it was given count.
\<close>

datatype status_phase =
    StatusStarting
  | StatusWaiting
  | StatusPatching sample string
  | StatusAnnotating sample

definition status_patched ::
    "sample \<Rightarrow> string \<Rightarrow> ReconcileError + unit \<Rightarrow> StatusReconciler \<Rightarrow> 'w sys
      \<Rightarrow> status_phase \<times> StatusReconciler \<times> 'w sys" where
  [simp]: "status_patched sm ok_line r st s =
     (case r of
        Inl e \<Rightarrow>
          (StatusWaiting, st, warn [''status'', '' reconcile failed: '', ReconcileError_display e] s)
      | Inr u \<Rightarrow> (StatusAnnotating sm, st, info [''status updated ('', ok_line, '')''] s))"

definition status_annotated ::
    "sample \<Rightarrow> ReconcileError + unit \<Rightarrow> StatusReconciler \<Rightarrow> 'w sys
      \<Rightarrow> status_phase \<times> StatusReconciler \<times> 'w sys" where
  [simp]: "status_annotated sm r st s =
     (case r of
        Inl e \<Rightarrow>
          (StatusWaiting, st, warn [''status'', '' reconcile failed: '', ReconcileError_display e] s)
      | Inr u \<Rightarrow>
          (StatusWaiting, st\<lparr>sr_last_status_update := sm_now sm,
             sr_state := (sr_state st)\<lparr>ls_prev_assoc_total := sm_assoc_total sm,
               ls_prev_bssid := sm_bssid sm, ls_prev_unix := sm_now sm,
               ls_prev_mono_ms := sm_now_ms sm\<rparr>\<rparr>, s))"

fun status_resume ::
    "'w platform \<Rightarrow> ApiClient \<Rightarrow> NodeIdentity \<Rightarrow> status_phase \<times> StatusReconciler \<times> 'w sys
      \<Rightarrow> status_phase \<times> StatusReconciler \<times> 'w sys" where
  "status_resume p c identity (StatusStarting, st, s) =
     (let (st, s) = StatusReconciler_new p (sr_tracker st) (ls_custom (sr_state st)) s
      in (StatusWaiting, st, s))"
| "status_resume p c identity (StatusWaiting, st, s) =
     (let s = wait_secs p interval s;
          (sm, st, s) = status_sample p st s
      in if \<not> sm_push sm then (StatusWaiting, st, s)
         else
           let ok_line = STATUS_OK_LINES ! (unat (ls_status_ok_idx (sr_state st)) mod length STATUS_OK_LINES);
               st = st\<lparr>sr_state := (sr_state st)\<lparr>ls_status_ok_idx := ls_status_ok_idx (sr_state st) + 1\<rparr>\<rparr>;
               mp = cs_value (memory_pressure (sr_tracker st));
               s = info [''PATCH /status (heap: '', fmt_display (sm_free sm), '' B, vibes: '',
                         if mp then ''concerning'' else ''immaculate'', '', MemoryPressure='',
                         if mp then ''true'' else ''false'', '')''] s
           in (StatusPatching sm ok_line, st, s))"
| "status_resume p c identity (StatusPatching sm ok_line, st, s) =
     (let (r, s) = patch_node_status p (KubeApi_new c) identity (sr_tracker st)
            (custom_entries (sm_evaluated sm) (ls_custom (sr_state st))) (sm_now sm) s
      in status_patched sm ok_line r st s)"
| "status_resume p c identity (StatusAnnotating sm, st, s) =
     (let (r, s) = patch_heap_annotation p (KubeApi_new c) identity (sm_free sm) s
      in status_annotated sm r st s)"

section \<open>The pieces are the rounds\<close>

text \<open>
  \<open>returns n w f x y\<close>: from \<open>x\<close> the piece-wise run \<open>f\<close> is back in the phase \<open>w\<close> after \<open>n\<close>
  steps, not before, and in the state \<open>y\<close>.
\<close>

definition returns :: "nat \<Rightarrow> 'ph \<Rightarrow> ('ph \<times> 'st \<Rightarrow> 'ph \<times> 'st) \<Rightarrow> 'st \<Rightarrow> 'st \<Rightarrow> bool" where
  "returns n w f x y \<longleftrightarrow> 0 < n \<and> (f ^^ n) (w, x) = (w, y) \<and>
     (\<forall>m \<in> {0 <..< n}. fst ((f ^^ m) (w, x)) \<noteq> w)"

lemma returns_1: "f (w, x) = (w, y) \<Longrightarrow> returns 1 w f x y"
  by (simp add: returns_def)

lemma returns_2: "f (w, x) = (v, z) \<Longrightarrow> v \<noteq> w \<Longrightarrow> f (v, z) = (w, y) \<Longrightarrow> returns 2 w f x y"
  by (auto simp: returns_def numeral_2_eq_2 less_Suc_eq)

lemma returns_3:
  "f (w, x) = (v, z) \<Longrightarrow> v \<noteq> w \<Longrightarrow> f (v, z) = (u, a) \<Longrightarrow> u \<noteq> w \<Longrightarrow> f (u, a) = (w, y) \<Longrightarrow>
    returns 3 w f x y"
  by (auto simp: returns_def numeral_3_eq_3 less_Suc_eq)

lemma lease_round_pieces:
  "\<exists>n \<in> {2, 3}. returns n LeaseWaiting (lease_resume p c identity) (st, s)
     (reconcile_round p ''lease'' (lease_reconcile p (ReconcileContext_new c identity)) st s)"
proof -
  obtain now s1 where 1: "unix_now p (wait_secs p interval s) = (now, s1)" by fastforce
  obtain r s2 where 2: "renew_lease p (KubeApi_new c) identity now s1 = (r, s2)" by fastforce
  define ps where "ps = [''lease vanished, recreating (someone deleted my contract)'']"
  obtain now' s3 where 3: "unix_now p (warn ps s2) = (now', s3)" by fastforce
  obtain r' s4 where 4: "create_lease p (KubeApi_new c) now' s3 = (r', s4)" by fastforce
  note eqs = 1 2 3 [unfolded ps_def] 4
  show ?thesis
  proof (cases "r = Inr Missing")
    case True
    then have "returns 3 LeaseWaiting (lease_resume p c identity) (st, s)
     (reconcile_round p ''lease'' (lease_reconcile p (ReconcileContext_new c identity)) st s)"
      by (intro returns_3) (auto simp: reconcile_round_def lease_reconcile_def eqs split: sum.splits)
    then show ?thesis by blast
  next
    case False
    then have "returns 2 LeaseWaiting (lease_resume p c identity) (st, s)
     (reconcile_round p ''lease'' (lease_reconcile p (ReconcileContext_new c identity)) st s)"
      by (intro returns_2) (auto simp: reconcile_round_def lease_reconcile_def eqs Let_def
          split: sum.splits LeaseRenewal.splits)
    then show ?thesis by blast
  qed
qed

lemma status_round_pieces:
  "\<exists>n \<in> {1, 2, 3}. returns n StatusWaiting (status_resume p c identity) (st, s)
     (reconcile_round p ''status'' (status_reconcile p (ReconcileContext_new c identity)) st s)"
proof -
  obtain sm st1 s1 where 1: "status_sample p st (wait_secs p interval s) = (sm, st1, s1)"
    by (metis prod.collapse)
  define ok_line where
    "ok_line = STATUS_OK_LINES ! (unat (ls_status_ok_idx (sr_state st1)) mod length STATUS_OK_LINES)"
  define st2 where "st2 = attempted st1"
  define ps where "ps = (let mp = cs_value (memory_pressure (sr_tracker st1)) in
    [''PATCH /status (heap: '', fmt_display (sm_free sm), '' B, vibes: '',
     if mp then ''concerning'' else ''immaculate'', '', MemoryPressure='',
     if mp then ''true'' else ''false'', '')''])"
  obtain r s2 where 2: "patch_node_status p (KubeApi_new c) identity (sr_tracker st1)
      (custom_entries (sm_evaluated sm) (ls_custom (sr_state st1))) (sm_now sm) (info ps s1) = (r, s2)"
    by fastforce
  obtain r' s3 where 3: "patch_heap_annotation p (KubeApi_new c) identity (sm_free sm)
      (info [''status updated ('', ok_line, '')''] s2) = (r', s3)" by fastforce
  have first: "status_resume p c identity (StatusWaiting, st, s)
    = (if sm_push sm then (StatusPatching sm ok_line, st2, info ps s1) else (StatusWaiting, st1, s1))"
    by (simp add: 1 Let_def ok_line_def st2_def attempted_def ps_def)
  have st2: "sr_tracker st2 = sr_tracker st1" "ls_custom (sr_state st2) = ls_custom (sr_state st1)"
    by (simp_all add: st2_def attempted_def)
  have whole: "status_reconcile p (ReconcileContext_new c identity) st (wait_secs p interval s) =
     (if \<not> sm_push sm then (Inr (), st1, s1)
      else case r of Inl e \<Rightarrow> (Inl e, st2, s2)
        | Inr u \<Rightarrow> (case r' of Inl e \<Rightarrow> (Inl e, st2, s3)
           | Inr u \<Rightarrow> (Inr (), pushed sm st2, s3)))"
    using 2 3
    by (simp add: status_reconcile_def status_push_def 1 Let_def ps_def ok_line_def st2_def attempted_def
        pushed_def split: sum.splits)
  consider (quiet) "\<not> sm_push sm" | (one) e where "sm_push sm" "r = Inl e"
    | (both) u where "sm_push sm" "r = Inr u"
    by (cases r) auto
  then show ?thesis
  proof cases
    case quiet
    then have "returns 1 StatusWaiting (status_resume p c identity) (st, s)
     (reconcile_round p ''status'' (status_reconcile p (ReconcileContext_new c identity)) st s)"
      by (intro returns_1) (simp only: first reconcile_round_def whole Let_def, simp)
    then show ?thesis by blast
  next
    case one
    have "status_resume p c identity (StatusPatching sm ok_line, st2, info ps s1)
      = (StatusWaiting, reconcile_round p ''status'' (status_reconcile p (ReconcileContext_new c identity)) st s)"
      using one by (simp add: 2 st2 reconcile_round_def whole)
    then have "returns 2 StatusWaiting (status_resume p c identity) (st, s)
     (reconcile_round p ''status'' (status_reconcile p (ReconcileContext_new c identity)) st s)"
      using one by (intro returns_2 [where f = "status_resume p c identity", OF first [unfolded if_P [OF one(1)]]]) simp_all
    then show ?thesis by blast
  next
    case both
    have second: "status_resume p c identity (StatusPatching sm ok_line, st2, info ps s1)
      = (StatusAnnotating sm, st2, info [''status updated ('', ok_line, '')''] s2)"
      using both by (simp add: 2 st2)
    have "status_resume p c identity
        (StatusAnnotating sm, st2, info [''status updated ('', ok_line, '')''] s2)
      = (StatusWaiting, reconcile_round p ''status'' (status_reconcile p (ReconcileContext_new c identity)) st s)"
      using both by (simp add: 3 reconcile_round_def whole pushed_def split: sum.splits)
    then have "returns 3 StatusWaiting (status_resume p c identity) (st, s)
     (reconcile_round p ''status'' (status_reconcile p (ReconcileContext_new c identity)) st s)"
      using both by (intro returns_3 [where f = "status_resume p c identity", OF first [unfolded if_P [OF both(1)]] _ second]) simp_all
    then show ?thesis by blast
  qed
qed

section \<open>What a piece changes\<close>

text \<open>
  What is shared: a piece of the lease reconciler writes \<open>RENEWAL_COUNT\<close> and the LED signal
  only, a piece of the status reconciler no static at all.
\<close>

lemma lease_resume_frame:
  assumes "lease_resume p c identity (ph, st, s) = (ph', st', s')"
  shows "clock s' = clock s \<and> wifi s' = wifi s"
  using assms
  by (cases ph) (auto simp: Let_def led_set_def frame_simps same_statics_def wait_secs_def
      split: prod.splits sum.splits LeaseRenewal.splits if_splits
      dest!: api_same_statics(1) api_same_statics(2) unix_now_frame)

lemma lease_resume_inv:
  assumes "lease_inv st s" "lease_resume p c identity (ph, st, s) = (ph', st', s')"
  shows "lease_inv st' s'"
  using assms
  by (cases ph) (auto simp: lease_inv_def Let_def led_set_def frame_simps same_statics_def wait_secs_def
      split: prod.splits sum.splits LeaseRenewal.splits if_splits
      dest!: api_same_statics(1) api_same_statics(2) unix_now_keeps)

lemma lease_resume_sent:
  assumes "bounded_buffer (push p)" "length (NODE_NAME (env p)) \<le> 65"
    "lease_resume p c identity (ph, st, s) = (ph', st', s')"
  shows "sent s' = sent s @ (case ph of LeaseWaiting \<Rightarrow> []
      | LeaseRenewing u \<Rightarrow> [lease_renew_line (env p) identity u]
      | LeaseCreating u \<Rightarrow> [lease_create_line (env p) u])"
  using assms(3)
  by (cases ph) (auto simp: Let_def led_set_def frame_simps adds_def wait_secs_def
      split: prod.splits sum.splits LeaseRenewal.splits if_splits
      dest!: renew_lease_adds [OF assms(1,2)] create_lease_adds [OF assms(1,2)] unix_now_frame)

text \<open>What is sampled is evaluated from inputs, also while the task waits for an answer.\<close>

definition sampled :: "sample \<Rightarrow> bool" where
  "sampled sm \<longleftrightarrow> (\<exists>inputs. sm_evaluated sm = evaluate inputs)"

lemma StatusReconciler_new_facts:
  assumes "StatusReconciler_new p tracker custom s = (st, s')"
  shows "sr_tracker st = tracker" "ls_custom (sr_state st) = custom" "adds [] s s'"
  using assms
  by (auto simp: StatusReconciler_new_def Let_def adds_Nil [symmetric] intro: same_statics_trans
      split: prod.splits dest!: unix_now_frame now_millis_frame)

fun phase_sampled :: "status_phase \<Rightarrow> bool" where
  "phase_sampled (StatusPatching sm ok_line) = sampled sm"
| "phase_sampled _ = True"

lemma same_statics_warn [simp]: "same_statics s (warn ps t) \<longleftrightarrow> same_statics s t"
  by (simp add: same_statics_def frame_simps)

lemma same_statics_wait [simp]: "same_statics (wait_secs p n s) t \<longleftrightarrow> same_statics s t"
  by (simp add: same_statics_def wait_secs_def)

lemma status_resume_statics:
  assumes "status_resume p c identity (ph, st, s) = (ph', st', s')"
  shows "same_statics s s' \<and>
    sr_tracker st' = (sr_tracker st)\<lparr>memory_pressure := memory_pressure (sr_tracker st')\<rparr> \<and>
    (phase_sampled ph \<longrightarrow> phase_sampled ph')"
proof (cases ph)
  case StatusStarting
  obtain st1 s1 where new: "StatusReconciler_new p (sr_tracker st) (ls_custom (sr_state st)) s = (st1, s1)"
    by fastforce
  from StatusReconciler_new_facts [OF new] assms show ?thesis
    by (simp add: StatusStarting new adds_def)
next
  case StatusWaiting
  obtain sm st1 s1 where 1: "status_sample p st (wait_secs p interval s) = (sm, st1, s1)"
    by (metis prod.collapse)
  note facts = status_sample_facts(1,7,9) [OF 1]
  have "same_statics s s1" using facts(1) by (simp add: adds_def)
  moreover have "sampled sm" using facts(3) by (auto simp: sampled_def)
  ultimately show ?thesis
    using assms facts(2) by (auto simp: StatusWaiting 1 Let_def split: if_splits)
next
  case (StatusPatching sm ok_line)
  with assms show ?thesis
    by (auto split: prod.splits sum.splits dest!: api_same_statics(3) intro: same_statics_trans)
next
  case (StatusAnnotating sm)
  with assms show ?thesis
    by (auto split: prod.splits sum.splits dest!: api_same_statics(4))
qed

lemma status_resume_tracked:
  assumes "status_resume p c identity (ph, st, s) = (ph', st', s')"
  shows "tracked (ls_custom (sr_state st')) = tracked (ls_custom (sr_state st)) \<or>
    (\<exists>inputs. tracked (ls_custom (sr_state st')) = statuses (evaluate inputs))"
proof (cases ph)
  case StatusStarting
  obtain st1 s1 where new: "StatusReconciler_new p (sr_tracker st) (ls_custom (sr_state st)) s = (st1, s1)"
    by fastforce
  from StatusReconciler_new_facts [OF new] assms show ?thesis
    by (simp add: StatusStarting new adds_def)
next
  case StatusWaiting
  obtain sm st1 s1 where 1: "status_sample p st (wait_secs p interval s) = (sm, st1, s1)"
    by (metis prod.collapse)
  from status_sample_facts(4,9) [OF 1] assms show ?thesis
    by (auto simp: StatusWaiting 1 Let_def split: if_splits)
qed (use assms in \<open>auto split: prod.splits sum.splits\<close>)

lemma status_resume_sent:
  assumes "bounded_buffer (push p)" "phase_sampled ph"
    "status_resume p c identity (ph, st, s) = (ph', st', s')"
  shows "sent s' = sent s @ (case ph of StatusStarting \<Rightarrow> [] | StatusWaiting \<Rightarrow> []
      | StatusPatching sm ok_line \<Rightarrow> [status_line_of identity (sample_patch sm st)]
      | StatusAnnotating sm \<Rightarrow> [annotation_line identity (sm_free sm)])"
proof (cases ph)
  case StatusStarting
  obtain st1 s1 where new: "StatusReconciler_new p (sr_tracker st) (ls_custom (sr_state st)) s = (st1, s1)"
    by fastforce
  from StatusReconciler_new_facts [OF new] assms show ?thesis
    by (simp add: StatusStarting new adds_def)
next
  case StatusWaiting
  obtain sm st1 s1 where 1: "status_sample p st (wait_secs p interval s) = (sm, st1, s1)"
    by (metis prod.collapse)
  then show ?thesis
    using assms(3) status_sample_facts(1) [OF 1]
    by (auto simp: StatusWaiting adds_def Let_def frame_simps wait_secs_def split: if_splits)
next
  case (StatusPatching sm ok_line)
  let ?entries = "custom_entries (sm_evaluated sm) (ls_custom (sr_state st))"
  obtain inputs where ev: "sm_evaluated sm = evaluate inputs"
    using assms(2) by (auto simp: StatusPatching sampled_def)
  obtain r s1 where 1: "patch_node_status p (KubeApi_new c) identity (sr_tracker st) ?entries (sm_now sm) s = (r, s1)"
    by fastforce
  have "adds [status_line_of identity (sample_patch sm st)] s s1"
    unfolding sample_patch_def
    by (rule patch_node_status_adds [OF assms(1) _ _ 1])
      (simp_all add: ev custom_entries_size length_custom_entries)
  then show ?thesis
    using assms(3) by (auto simp: StatusPatching 1 adds_def frame_simps split: sum.splits)
next
  case (StatusAnnotating sm)
  with assms(3) show ?thesis
    by (auto simp: frame_simps adds_def split: prod.splits sum.splits
        dest!: patch_heap_annotation_adds [OF assms(1)])
qed

section \<open>Both together\<close>

text \<open>The pieces of a reconciler between its awaits, run one after the other, are the round of the
  code: the lease reconciler is back at its timer after two or three pieces, the status
  reconciler after one, two or three, and not before; state, statics, log and requests are those
  of the round.\<close>

lemma rounds_are_pieces:
  "(\<exists>n \<in> {2, 3}. returns n LeaseWaiting (lease_resume p c identity) (lst, s)
     (reconcile_round p ''lease'' (lease_reconcile p (ReconcileContext_new c identity)) lst s)) \<and>
   (\<exists>n \<in> {1, 2, 3}. returns n StatusWaiting (status_resume p c identity) (sst, s)
     (reconcile_round p ''status'' (status_reconcile p (ReconcileContext_new c identity)) sst s))"
  by (intro conjI lease_round_pieces status_round_pieces)

end
