(* ===== verification/Ethernet.thy ===== *)
theory Ethernet
  imports Rust_Text
begin

text \<open>
  \<open>src/net/ethernet.rs\<close>: the probe of the W5500 controller, which decides between the
  wired and the wireless interface. The SPI bus is not part of the repository:
  \<open>spi header w\<close> is a transaction that writes \<open>header\<close> and reads one byte, \<open>None\<close>
  standing for an error of the bus.
\<close>

definition W5500_VERSIONR :: u16 where "W5500_VERSIONR = 0x0039"
definition W5500_PHYCFGR :: u16 where "W5500_PHYCFGR = 0x002e"
definition W5500_VERSION :: u8 where "W5500_VERSION = 0x04"
definition W5500_PHY_LINK_UP :: u8 where "W5500_PHY_LINK_UP = 0x01"

type_synonym 'w spi = "u8 list \<Rightarrow> 'w \<Rightarrow> u8 option \<times> 'w"

definition read_header :: "u16 \<Rightarrow> u8 list" where
  "read_header addr = [ucast (drop_bit 8 addr), ucast addr, 0x00]"

definition read_common_register :: "'w spi \<Rightarrow> u16 \<Rightarrow> 'w \<Rightarrow> u8 option \<times> 'w" where
  "read_common_register spi addr w = (let header = read_header addr in spi header w)"

text \<open>The verdict, the line that is logged with it, and the bus behind the transactions.\<close>

definition probe_w5500 :: "'w spi \<Rightarrow> 'w \<Rightarrow> bool \<times> log_line \<times> 'w" where
  "probe_w5500 spi w =
     (case read_common_register spi W5500_VERSIONR w of
        (None, w) \<Rightarrow> (False, (Warn, ''ethernet: W5500 did not answer the door''), w)
      | (Some version, w) \<Rightarrow>
          if version \<noteq> W5500_VERSION then
            (False, (Warn, ''ethernet: W5500 said it is 0x'' @ fmt_hex_padded 2 version @
                           '', which feels suspicious''), w)
          else (case read_common_register spi W5500_PHYCFGR w of
                  (Some phy, w) \<Rightarrow>
                    if phy AND W5500_PHY_LINK_UP \<noteq> 0 then
                      (True, (Info, ''ethernet: W5500 is here and the cable has opinions''), w)
                    else
                      (False, (Warn, ''ethernet: W5500 is present but the link is taking a personal day (PHYCFGR=0x''
                                     @ fmt_hex_padded 2 phy @ '')''), w)
                | (None, w) \<Rightarrow>
                    (False, (Warn, ''ethernet: W5500 appeared, then got weird about PHY status''), w)))"

text \<open>
  A controller with the common registers \<open>regs\<close>: it answers a header of address and
  control byte 0 with the register at that address, and counts the transactions.
\<close>

fun w5500 :: "(u16 \<Rightarrow> u8) \<Rightarrow> nat spi" where
  "w5500 regs [hi, lo, ctl] n =
     (if ctl = 0 then Some (regs (push_bit 8 (ucast hi) OR ucast lo)) else None, Suc n)"
| "w5500 regs _ n = (None, Suc n)"

lemma read_header_address:
  "push_bit 8 (ucast (ucast (drop_bit 8 addr) :: u8)) OR ucast (ucast addr :: u8) = (addr :: u16)"
  by (rule bit_word_eqI) (auto simp: bit_simps dest: bit_imp_le_length)

lemma read_w5500: "read_common_register (w5500 regs) addr n = (Some (regs addr), Suc n)"
  by (simp add: read_common_register_def read_header_def read_header_address)

lemma link_bit: "(x AND 1 \<noteq> 0) = odd (unat x)" for x :: u8
proof -
  have "bit (unat x) 0 \<longleftrightarrow> bit x 0" by (simp only: bit_unsigned_iff) simp
  then show ?thesis by (simp add: bit_0 and_one_eq odd_iff_mod_2_eq_one)
qed

lemmas probe_simps = probe_w5500_def W5500_VERSIONR_def W5500_PHYCFGR_def W5500_VERSION_def
  W5500_PHY_LINK_UP_def

section \<open>Properties\<close>

text \<open>C38. On a controller that answers with its registers the probe says yes exactly when the version is
  4 and the link bit of the PHY register is set. It does not read the PHY register of a chip with
  another version, and it warns exactly where it says no.\<close>

theorem probe_decides:
  "fst (probe_w5500 (w5500 regs) n) = (regs 0x39 = 4 \<and> odd (unat (regs 0x2e))) \<and>
   snd (snd (probe_w5500 (w5500 regs) n)) = (if regs 0x39 = 4 then n + 2 else n + 1) \<and>
   fst (fst (snd (probe_w5500 (w5500 regs) n))) =
     (if fst (probe_w5500 (w5500 regs) n) then Info else Warn)"
  by (simp add: probe_simps read_w5500 link_bit)

end
