(* ===== verification/Board.thy ===== *)
theory Board
  imports Platform Ethernet "HOL-Library.Monad_Syntax"
begin

text \<open>
  \<open>src/main.rs\<close> until the network stack runs: the heap, the tasks that are spawned, and the choice
  between the wired and the wireless interface. The drivers and the executor are not part of the
  repository; the record \<open>board\<close> says what they answer to the calls of \<open>main\<close> that can fail. A
  failing \<open>expect\<close> or \<open>unwrap\<close> is \<open>None\<close>.
\<close>

section \<open>The heap\<close>

text \<open>The two regions handed to \<open>esp-alloc\<close>, in bytes.\<close>

definition HEAP_REGIONS :: "usize list" where
  "HEAP_REGIONS = [64 * 1024, 36 * 1024]"

text \<open>\<open>HEAP_TOTAL_BYTES\<close>, on which the heap conditions rest, is their sum, and does not wrap.\<close>

lemma heap_total_is_regions:
  "HEAP_TOTAL_BYTES = sum_list HEAP_REGIONS" "unat HEAP_TOTAL_BYTES = sum_list (map unat HEAP_REGIONS)"
  by (simp_all add: HEAP_TOTAL_BYTES_def HEAP_REGIONS_def)

section \<open>Tasks\<close>

datatype task_name =
    Led_task
  | Ethernet_task
  | Ethernet_net_task
  | Connection_task
  | Wifi_net_task
  | Lease_reconciler
  | Status_reconciler

text \<open>
  The function of a task gives a token to spawn, unless all slots of the pool of that task are
  taken: \<open>slot ts t\<close> says whether one is free for \<open>t\<close> when the tasks \<open>ts\<close> were spawned. Documented
  is that a pool has at least one slot, so that a task that does not run can be spawned.
\<close>

locale executor =
  fixes slot :: "task_name list \<Rightarrow> task_name \<Rightarrow> bool"
  assumes slot_free: "t \<notin> set ts \<Longrightarrow> slot ts t"

definition spawn :: "(task_name list \<Rightarrow> task_name \<Rightarrow> bool) \<Rightarrow> task_name \<Rightarrow> task_name list \<Rightarrow> task_name list option" where
  "spawn slot t ts = (if slot ts t then Some (ts @ [t]) else None)"

context executor
begin

lemma spawn_fresh: "t \<notin> set ts \<Longrightarrow> spawn slot t ts = Some (ts @ [t])"
  by (simp add: spawn_def slot_free)

end

definition pool_of_one :: "task_name list \<Rightarrow> task_name \<Rightarrow> bool" where
  "pool_of_one ts t \<longleftrightarrow> t \<notin> set ts"

interpretation one_slot: executor pool_of_one
  by unfold_locales (simp add: pool_of_one_def)

section \<open>Drivers\<close>

text \<open>
  \<open>spi_new\<close> takes the frequency in MHz. \<open>wiznet_new\<close> and \<open>wifi_new\<close> say whether the driver comes up.
\<close>

record 'w board =
  task_slot :: "task_name list \<Rightarrow> task_name \<Rightarrow> bool"
  spi_new :: "u32 \<Rightarrow> 'w spi option"
  ap_mac :: "u8 list"
  wiznet_new :: "u8 list \<Rightarrow> 'w \<Rightarrow> bool \<times> 'w"
  wifi_new :: "string \<Rightarrow> string \<Rightarrow> 'w \<Rightarrow> bool \<times> 'w"

datatype net_device = Wired "u8 list" | Station string string

record net_stack =
  ns_device :: net_device
  ns_sockets :: nat
  ns_seed :: u64

text \<open>\<open>copy_from_slice\<close> panics where the lengths differ.\<close>

definition copy_from_slice :: "'a list \<Rightarrow> 'a list \<Rightarrow> 'a list option" where
  "copy_from_slice dst src = (if length src = length dst then Some src else None)"

definition expect :: "bool \<times> 'w \<Rightarrow> 'w option" where
  "expect r = (if fst r then Some (snd r) else None)"

definition bring_up ::
    "'w board \<Rightarrow> build_env \<Rightarrow> 'w spi \<Rightarrow> u64 \<Rightarrow> task_name list \<Rightarrow> 'w sys
      \<Rightarrow> (net_stack \<times> task_name list \<times> 'w sys) option" where
  "bring_up b e spi seed tasks s =
     (let (ethernet, line, w) = probe_w5500 spi (world s);
          s = log_lines [line] (s\<lparr>world := w\<rparr>)
      in if ethernet then do {
           let s = info [''ethernet wins; Wi-Fi stays in bed, fully disconnected''] s;
           mac_addr \<leftarrow> copy_from_slice (replicate 6 0) (ap_mac b);
           w \<leftarrow> expect (wiznet_new b mac_addr (world s));
           tasks \<leftarrow> spawn (task_slot b) Ethernet_task tasks;
           tasks \<leftarrow> spawn (task_slot b) Ethernet_net_task tasks;
           Some (\<lparr>ns_device = Wired mac_addr, ns_sockets = 4, ns_seed = seed\<rparr>, tasks, s\<lparr>world := w\<rparr>)
         } else do {
           let s = info [''ethernet declined the quest; falling back to Wi-Fi''] s;
           let s = info [''joining SSID: '', WIFI_SSID e, '' (please be there)''] s;
           w \<leftarrow> expect (wifi_new b (WIFI_SSID e) (WIFI_PSK e) (world s));
           tasks \<leftarrow> spawn (task_slot b) Connection_task tasks;
           tasks \<leftarrow> spawn (task_slot b) Wifi_net_task tasks;
           Some (\<lparr>ns_device = Station (WIFI_SSID e) (WIFI_PSK e), ns_sockets = 4, ns_seed = seed\<rparr>,
             tasks, s\<lparr>world := w\<rparr>)
         })"

text \<open>The tasks of an interface.\<close>

fun interface_tasks :: "net_device \<Rightarrow> task_name list" where
  "interface_tasks (Wired mac) = [Ethernet_task, Ethernet_net_task]"
| "interface_tasks (Station ssid psk) = [Connection_task, Wifi_net_task]"

lemma bring_up_facts:
  assumes "bring_up b e spi seed tasks s = Some (stack, tasks', s')"
  shows "same_statics s s'" "sent s' = sent s" "ns_seed stack = seed"
    "tasks' = tasks @ interface_tasks (ns_device stack)"
    "case ns_device stack of Wired mac \<Rightarrow> mac = ap_mac b \<and> length mac = 6
     | Station ssid psk \<Rightarrow> ssid = WIFI_SSID e \<and> psk = WIFI_PSK e"
  using assms
  by (auto simp: bring_up_def Let_def copy_from_slice_def spawn_def expect_def same_statics_def frame_simps
      split: prod.splits if_splits Option.bind_splits)

text \<open>Where no interface comes up.\<close>

definition interface_fails :: "'w board \<Rightarrow> build_env \<Rightarrow> 'w spi \<Rightarrow> 'w \<Rightarrow> bool" where
  "interface_fails b e spi w \<longleftrightarrow>
     (let (ethernet, line, w) = probe_w5500 spi w
      in if ethernet then length (ap_mac b) \<noteq> 6 \<or> \<not> fst (wiznet_new b (ap_mac b) w)
         else \<not> fst (wifi_new b (WIFI_SSID e) (WIFI_PSK e) w))"

lemma bring_up_None_iff:
  assumes "executor (task_slot b)" "set tasks \<subseteq> {Led_task}"
  shows "bring_up b e spi seed tasks s = None \<longleftrightarrow> interface_fails b e spi (world s)"
proof -
  obtain ethernet line w where probe: "probe_w5500 spi (world s) = (ethernet, line, w)"
    by (metis prod.collapse)
  have spawns: "spawn (task_slot b) t ts = Some (ts @ [t])" if "t \<notin> set ts" for t ts
    by (rule executor.spawn_fresh [OF assms(1) that])
  have "Ethernet_task \<notin> set tasks" "Ethernet_net_task \<notin> set tasks"
    "Connection_task \<notin> set tasks" "Wifi_net_task \<notin> set tasks"
    using assms(2) by auto
  then show ?thesis
    by (simp add: bring_up_def interface_fails_def probe Let_def spawns copy_from_slice_def expect_def
        frame_simps bind_eq_None_conv)
qed

end
