(* ===== verification/Firmware.thy ===== *)
theory Firmware
  imports Tasks Board
begin

text \<open>
  \<open>src/main.rs\<close>: the composition. \<open>boot\<close> is \<open>main\<close> up to the spawning of the two
  reconcilers; what follows is the step relation \<open>fw_step\<close>, in which the tasks of the executor
  take turns: each step runs one task from the await it stands at to the next one.

  No await of \<open>main\<close> lets another task see or change what \<open>main\<close> works with: before the
  reconcilers exist only the LED task and the connection task run, and \<open>main\<close> reads the statics
  of the latter behind its last await. So \<open>boot\<close> takes as an argument what the connection task
  has done until then.
\<close>

record 'w fw =
  fw_client :: ApiClient
  fw_identity :: NodeIdentity
  fw_stack :: net_stack
  fw_tasks :: "task_name list"
  fw_lease :: LeaseReconciler
  fw_lease_at :: lease_phase
  fw_status :: StatusReconciler
  fw_status_at :: status_phase
  fw_link :: wifi_phase
  fw_led :: "led_state option"
  fw_sys :: "'w sys"

text \<open>What DHCP gave: the address, and the address and the gateway as they are logged.\<close>

record config_v4 =
  cfg_ip :: Ipv4Addr
  cfg_address :: string
  cfg_gateway :: string

text \<open>
  The status task before the executor polls it for the first time: it has the trackers it was spawned with, and
  nothing else of its reconciler.
\<close>

definition not_started :: "NodeCondTracker \<Rightarrow> CustomCondTracker \<Rightarrow> StatusReconciler" where
  "not_started tracker custom =
     \<lparr>sr_tracker = tracker, sr_last_status_update = 0,
      sr_state = \<lparr>ls_custom = custom, ls_prev_assoc_total = 0, ls_prev_bssid = 0, ls_prev_unix = 0,
        ls_prev_mono_ms = 0, ls_status_ok_idx = 0\<rparr>\<rparr>"

text \<open>
  \<open>main\<close> behind \<open>wait_config_up\<close>. A failing \<open>expect\<close> or \<open>unwrap\<close> is \<open>None\<close>.
\<close>

definition boot_node ::
    "'w platform \<Rightarrow> 'w board \<Rightarrow> net_stack \<Rightarrow> task_name list \<Rightarrow> wifi_phase \<Rightarrow> config_v4 option \<Rightarrow> 'w sys
      \<Rightarrow> 'w fw option" where
  "boot_node p b stack tasks link config s = do {
     cfg \<leftarrow> config;
     let my_ip = cfg_ip cfg;
     let s = info [''DHCP up: ip='', cfg_address cfg, '' gw='', cfg_gateway cfg, '' (we are someone now)''] s;
     port \<leftarrow> parse_u16 (K3S_API_PORT_STR (env p));
     api_host \<leftarrow> parse_ipv4 (K3S_API_HOST (env p));
     let client = ApiClient_new api_host port TLS_BUF TLS_BUF 8192;
     identity \<leftarrow> NodeIdentity_new (push p) (env p) my_ip;
     let (tracker, custom, s) = bootstrap p client identity s;
     let s = info [''entering renewal loop (lease '', fmt_display LEASE_RENEW_PERIOD_SECS,
       ''s, status '', fmt_display STATUS_UPDATE_PERIOD_SECS, ''s). and so it begins.''] s;
     lease_identity \<leftarrow> NodeIdentity_clone (push p) identity;
     tasks \<leftarrow> spawn (task_slot b) Lease_reconciler tasks;
     tasks \<leftarrow> spawn (task_slot b) Status_reconciler tasks;
     Some \<lparr>fw_client = client, fw_identity = identity, fw_stack = stack, fw_tasks = tasks,
           fw_lease = LeaseReconciler_new, fw_lease_at = LeaseWaiting,
           fw_status = not_started tracker custom, fw_status_at = StatusStarting,
           fw_link = link, fw_led = None, fw_sys = s\<rparr>
   }"

text \<open>The seed of the network stack: two words of the random number generator.\<close>

definition net_seed :: "'w platform \<Rightarrow> 'w sys \<Rightarrow> u64 \<times> 'w sys" where
  "net_seed p s =
     (let (hi, w) = rng_random p (world s); (lo, w) = rng_random p w
      in (push_bit 32 (ucast hi) OR ucast lo, s\<lparr>world := w\<rparr>))"

text \<open>The lines that introduce the node, and the first signal to the LED.\<close>

definition greet :: "build_env \<Rightarrow> 'w sys \<Rightarrow> 'w sys" where
  "greet e s =
     (let s = info [''picokubelet booting on ESP32-S3 (here we go again)''] s;
          s = info [''identity confirmed: '', NODE_NAME e, '' (it me)''] s;
          s = info [''target k3s api server: '', K3S_API_HOST e, '':'', K3S_API_PORT_STR e,
                    '' (the control plane, allegedly)''] s
      in led_set Connecting s)"

text \<open>
  \<open>link\<close> is what the connection task has done when DHCP is up, if there is such a task.
\<close>

definition boot ::
    "'w platform \<Rightarrow> 'w board \<Rightarrow> wifi_phase \<times> wifi_statics \<times> log_line list \<Rightarrow> config_v4 option \<Rightarrow> 'w
      \<Rightarrow> 'w fw option" where
  "boot p b link config w = do {
     tasks \<leftarrow> spawn (task_slot b) Led_task [];
     let s = greet (env p) (sys_init w);
     let (seed, s) = net_seed p s;
     let s = info [''asking ethernet if it wants to be the adult in the room''] s;
     spi \<leftarrow> spi_new b 25;
     (stack, tasks, s) \<leftarrow> bring_up b (env p) spi seed tasks s;
     let s = info [''waiting for DHCP lease (the original lease)...''] s;
     if Connection_task \<in> set tasks then
       let (phase, statics, ls) = link in
       boot_node p b stack tasks phase config (log_lines ls (s\<lparr>wifi := statics\<rparr>))
     else boot_node p b stack tasks Knocking config s
   }"

section \<open>The tasks take turns\<close>

definition lease_turn :: "'w platform \<Rightarrow> 'w fw \<Rightarrow> 'w fw" where
  "lease_turn p f =
     (let (ph, st, s) = lease_resume p (fw_client f) (fw_identity f) (fw_lease_at f, fw_lease f, fw_sys f)
      in f\<lparr>fw_lease_at := ph, fw_lease := st, fw_sys := s\<rparr>)"

definition status_turn :: "'w platform \<Rightarrow> 'w fw \<Rightarrow> 'w fw" where
  "status_turn p f =
     (let (ph, st, s) = status_resume p (fw_client f) (fw_identity f) (fw_status_at f, fw_status f, fw_sys f)
      in f\<lparr>fw_status_at := ph, fw_status := st, fw_sys := s\<rparr>)"

text \<open>The connection task exists only where the wired interface did not answer.\<close>

definition wifi_turn :: "'w platform \<Rightarrow> wifi_event \<Rightarrow> 'w fw \<Rightarrow> 'w fw option" where
  "wifi_turn p ev f =
     (case connection_step (WIFI_SSID (env p)) ev (fw_link f) (wifi (fw_sys f)) of
        None \<Rightarrow> None
      | Some (ph, statics, ls) \<Rightarrow>
          Some (f\<lparr>fw_link := ph, fw_sys := log_lines ls ((fw_sys f)\<lparr>wifi := statics\<rparr>)\<rparr>))"

text \<open>
  The LED task: it starts to listen behind its self-test, if the RMT peripheral and its channel
  are there. Then it selects: when the timer of the frame has fired, it draws the frame, even if a pattern is
  signalled, which then stays signalled; when one is signalled before, it takes it.
\<close>

definition led_listen :: "bool \<Rightarrow> bool \<Rightarrow> u64 \<Rightarrow> 'w fw \<Rightarrow> 'w fw" where
  "led_listen rmt_ok channel_ok now f =
     (case led_start rmt_ok channel_ok now of
        None \<Rightarrow> f
      | Some (as, l) \<Rightarrow> f\<lparr>fw_led := Some l\<rparr>)"

definition led_frame :: "(u64 \<Rightarrow> u64) \<Rightarrow> u64 \<Rightarrow> led_state \<Rightarrow> 'w fw \<Rightarrow> 'w fw" where
  "led_frame as_millis now l f = f\<lparr>fw_led := Some (snd (led_step as_millis now FrameTimer l))\<rparr>"

definition led_receive ::
    "(u64 \<Rightarrow> u64) \<Rightarrow> u64 \<Rightarrow> LedPattern \<Rightarrow> led_state \<Rightarrow> 'w fw \<Rightarrow> 'w fw" where
  "led_receive as_millis now pattern l f =
     f\<lparr>fw_led := Some (snd (led_step as_millis now (Received pattern) l)),
       fw_sys := (fw_sys f)\<lparr>LED_SIGNAL := None\<rparr>\<rparr>"

text \<open>Whatever else happens: time passes, bytes arrive.\<close>

definition world_turn :: "'w \<Rightarrow> 'w fw \<Rightarrow> 'w fw" where
  "world_turn w f = f\<lparr>fw_sys := (fw_sys f)\<lparr>world := w\<rparr>\<rparr>"

datatype task = LeaseTask | StatusTask | WifiTask | LedTask | Elsewhere

inductive fw_step :: "'w platform \<Rightarrow> task \<Rightarrow> 'w fw \<Rightarrow> 'w fw \<Rightarrow> bool" for p where
  step_lease: "fw_step p LeaseTask f (lease_turn p f)"
| step_status: "fw_step p StatusTask f (status_turn p f)"
| step_wifi: "Connection_task \<in> set (fw_tasks f) \<Longrightarrow> wifi_turn p ev f = Some g \<Longrightarrow> fw_step p WifiTask f g"
| step_led_start: "fw_led f = None \<Longrightarrow> fw_step p LedTask f (led_listen rmt_ok channel_ok now f)"
| step_led_frame: "fw_led f = Some l \<Longrightarrow> fw_step p LedTask f (led_frame as_millis now l f)"
| step_led_signal:
    "fw_led f = Some l \<Longrightarrow> LED_SIGNAL (fw_sys f) = Some pattern \<Longrightarrow>
     fw_step p LedTask f (led_receive as_millis now pattern l f)"
| step_world: "fw_step p Elsewhere f (world_turn w f)"

inductive_cases fw_step_cases: "fw_step p t f g"

text \<open>The states reached by the turns of a schedule.\<close>

inductive execution :: "'w platform \<Rightarrow> 'w fw \<Rightarrow> task list \<Rightarrow> 'w fw \<Rightarrow> bool" for p f0 where
  exec_boot: "execution p f0 [] f0"
| exec_step: "execution p f0 ts f \<Longrightarrow> fw_step p t f g \<Longrightarrow> execution p f0 (ts @ [t]) g"

section \<open>What holds in every reachable state\<close>

text \<open>The LED shows, or is about to be told, that the node is healthy only behind a renewal.\<close>

definition led_honest :: "bool \<Rightarrow> led_state option \<Rightarrow> LedPattern option \<Rightarrow> bool" where
  "led_honest healthy led sig \<longleftrightarrow>
     (\<forall>l. led = Some l \<longrightarrow> steady l \<in> {Booting, Connecting} \<or> steady l = Healthy \<and> healthy) \<and>
     (sig \<in> {None, Some Connecting} \<or> sig \<in> {Some Healthy, Some Activity} \<and> healthy)"

definition fw_inv :: "'w fw \<Rightarrow> 'w fw \<Rightarrow> bool" where
  "fw_inv f0 f \<longleftrightarrow> fw_client f = fw_client f0 \<and> fw_identity f = fw_identity f0 \<and>
     fw_tasks f = fw_tasks f0 \<and> lease_inv (fw_lease f) (fw_sys f) \<and>
     led_honest (lr_healthy (fw_lease f)) (fw_led f) (LED_SIGNAL (fw_sys f)) \<and>
     fixed_conditions (sr_tracker (fw_status f0)) (fw_status f) (fw_sys f) \<and>
     clock (fw_sys f) = clock (fw_sys f0) \<and>
     (Connection_task \<notin> set (fw_tasks f0) \<longrightarrow> wifi (fw_sys f) = wifi (fw_sys f0))"

lemma lease_resume_led:
  assumes "lease_resume p c identity (ph, st, s) = (ph', st', s')"
    "led_honest (lr_healthy st) led (LED_SIGNAL s)"
  shows "led_honest (lr_healthy st') led (LED_SIGNAL s')"
  using assms
  by (cases ph) (auto simp: led_honest_def Let_def led_set_def frame_simps same_statics_def wait_secs_def
      split: prod.splits sum.splits LeaseRenewal.splits if_splits
      dest!: api_same_statics(1) api_same_statics(2) unix_now_frame)

lemma led_step_honest:
  assumes "led_honest healthy (Some l) (Some pattern)"
  shows "led_honest healthy (Some (snd (led_step as_millis now (Received pattern) l))) None"
  using assms by (cases pattern) (auto simp: led_honest_def)

lemma fw_step_inv:
  assumes inv: "fw_inv f0 f" and step: "fw_step p t f g"
  shows "fw_inv f0 g"
  using step
proof cases
  case step_lease
  obtain ph st s where piece: "lease_resume p (fw_client f) (fw_identity f)
      (fw_lease_at f, fw_lease f, fw_sys f) = (ph, st, s)" by (metis prod.collapse)
  have "g = f\<lparr>fw_lease_at := ph, fw_lease := st, fw_sys := s\<rparr>"
    by (simp add: step_lease lease_turn_def piece)
  then show ?thesis
    using inv lease_resume_inv [OF _ piece] lease_resume_led [OF piece] lease_resume_frame [OF piece]
    by (simp add: fw_inv_def fixed_conditions_def)
next
  case step_status
  obtain ph st s where piece: "status_resume p (fw_client f) (fw_identity f)
      (fw_status_at f, fw_status f, fw_sys f) = (ph, st, s)" by (metis prod.collapse)
  have "sr_tracker st = (sr_tracker (fw_status f))\<lparr>memory_pressure := memory_pressure (sr_tracker st)\<rparr>"
    and same: "same_statics (fw_sys f) s"
    using status_resume_statics [OF piece] by auto
  then have "fixed_conditions (sr_tracker (fw_status f0)) st s"
    using inv by (cases "sr_tracker st") (auto simp: fw_inv_def fixed_conditions_def)
  moreover have "g = f\<lparr>fw_status_at := ph, fw_status := st, fw_sys := s\<rparr>"
    by (simp add: step_status status_turn_def piece)
  ultimately show ?thesis
    using inv same by (auto simp: fw_inv_def lease_inv_def same_statics_def)
next
  case (step_wifi ev)
  then show ?thesis
    using inv by (auto simp: wifi_turn_def fw_inv_def lease_inv_def fixed_conditions_def frame_simps
        split: option.splits prod.splits)
next
  case (step_led_start rmt_ok channel_ok now)
  then show ?thesis
    using inv by (auto simp: led_listen_def led_start_def Let_def fw_inv_def led_honest_def
        lease_inv_def fixed_conditions_def)
next
  case (step_led_frame l as_millis now)
  then show ?thesis
    using inv by (auto simp: led_frame_def fw_inv_def led_honest_def lease_inv_def fixed_conditions_def)
next
  case (step_led_signal l pattern as_millis now)
  then show ?thesis
    using inv led_step_honest [of "lr_healthy (fw_lease f)" l pattern as_millis now]
    by (auto simp: led_receive_def fw_inv_def lease_inv_def fixed_conditions_def)
next
  case (step_world w)
  then show ?thesis
    using inv by (auto simp: world_turn_def fw_inv_def lease_inv_def fixed_conditions_def)
qed

section \<open>The requests of the firmware\<close>

text \<open>Every kind of request there is. A status always says that the node is ready.\<close>

definition firmware_line :: "build_env \<Rightarrow> NodeIdentity \<Rightarrow> request_line \<Rightarrow> bool" where
  "firmware_line e identity l \<longleftrightarrow> l = version_line \<or> (\<exists>u. l = node_line e (ni_ip identity) u) \<or>
     (\<exists>u. l = lease_create_line e u) \<or> (\<exists>u. l = lease_renew_line e identity u) \<or>
     (\<exists>t inputs cu hb. cs_value (ready t) \<and> l = status_line_of identity
        \<lparr>nsp_tracker = t, nsp_custom = custom_entries (evaluate inputs) cu, nsp_heartbeat_unix = hb\<rparr>) \<or>
     (\<exists>n. l = annotation_line identity n)"

lemma firmware_line_status:
  "cs_value (ready t) \<Longrightarrow> firmware_line e identity (status_line_of identity
    \<lparr>nsp_tracker = t, nsp_custom = custom_entries (evaluate inputs) cu, nsp_heartbeat_unix = hb\<rparr>)"
  unfolding firmware_line_def by blast

lemma firmware_line_body:
  assumes "firmware_line e identity l" "json_plain (NODE_NAME e)"
  shows "rq_body l = None \<or> (\<exists>j. rq_body l = Some (json_render j))"
  using assms
  by (auto simp: firmware_line_def line_of_def version_line_def node_line_def lease_create_line_def
      lease_renew_line_def status_line_of_def annotation_line_def node_text_def lease_text_def
      NodeRegistration_json LeaseBody_json status_text_json custom_entries_plain HeapAnnotation_json)

lemma firmware_line_strategic:
  assumes "firmware_line e identity l" "rq_content_type l = ''application/strategic-merge-patch+json''"
  shows "\<exists>t inputs cu hb. cs_value (ready t) \<and> rq_body l = Some (status_text
    \<lparr>nsp_tracker = t, nsp_custom = custom_entries (evaluate inputs) cu, nsp_heartbeat_unix = hb\<rparr>)"
  using assms
  by (auto simp: firmware_line_def line_of_def version_line_def node_line_def lease_create_line_def
      lease_renew_line_def status_line_of_def annotation_line_def) blast

text \<open>
  The lines of a piece are lines of the firmware, and what a task has sampled stays evaluated
  from inputs while it waits.
\<close>

definition lines_inv :: "'w platform \<Rightarrow> 'w fw \<Rightarrow> bool" where
  "lines_inv p f \<longleftrightarrow> length (NODE_NAME (env p)) \<le> 65 \<and> cs_value (ready (sr_tracker (fw_status f))) \<and>
     phase_sampled (fw_status_at f) \<and>
     CondUnknown \<notin> set (tl (tracked (ls_custom (sr_state (fw_status f))))) \<and>
     list_all (firmware_line (env p) (fw_identity f)) (sent (fw_sys f))"

lemma fw_step_lines:
  assumes push: "bounded_buffer (push p)" and inv: "lines_inv p f" and step: "fw_step p t f g"
  shows "lines_inv p g"
  using step
proof cases
  case step_lease
  obtain ph st s where piece: "lease_resume p (fw_client f) (fw_identity f)
      (fw_lease_at f, fw_lease f, fw_sys f) = (ph, st, s)" by (metis prod.collapse)
  have g: "g = f\<lparr>fw_lease_at := ph, fw_lease := st, fw_sys := s\<rparr>"
    by (simp add: step_lease lease_turn_def piece)
  have "length (NODE_NAME (env p)) \<le> 65" using inv by (simp add: lines_inv_def)
  from lease_resume_sent [OF push this piece] inv show ?thesis
    by (auto simp: g lines_inv_def firmware_line_def split: lease_phase.splits)
next
  case step_status
  obtain ph st s where piece: "status_resume p (fw_client f) (fw_identity f)
      (fw_status_at f, fw_status f, fw_sys f) = (ph, st, s)" by (metis prod.collapse)
  have g: "g = f\<lparr>fw_status_at := ph, fw_status := st, fw_sys := s\<rparr>"
    by (simp add: step_status status_turn_def piece)
  have ready: "cs_value (ready (sr_tracker (fw_status f)))" and sampled: "phase_sampled (fw_status_at f)"
    using inv by (simp_all add: lines_inv_def)
  have "sr_tracker st = (sr_tracker (fw_status f))\<lparr>memory_pressure := memory_pressure (sr_tracker st)\<rparr>"
    and next_phase: "phase_sampled ph"
    and known: "tracked (ls_custom (sr_state st)) = tracked (ls_custom (sr_state (fw_status f))) \<or>
      (\<exists>inputs. tracked (ls_custom (sr_state st)) = statuses (evaluate inputs))"
    using status_resume_statics [OF piece] status_resume_tracked [OF piece] sampled by auto
  then have ready': "cs_value (ready (sr_tracker st))"
    using ready by (cases "sr_tracker st"; cases "sr_tracker (fw_status f)") auto
  have "list_all (firmware_line (env p) (fw_identity f)) (case fw_status_at f of StatusStarting \<Rightarrow> [] | StatusWaiting \<Rightarrow> []
      | StatusPatching sm ok_line \<Rightarrow> [status_line_of (fw_identity f) (sample_patch sm (fw_status f))]
      | StatusAnnotating sm \<Rightarrow> [annotation_line (fw_identity f) (sm_free sm)])"
    using sampled ready
    by (cases "fw_status_at f")
      (auto simp: sampled_def sample_patch_def intro!: firmware_line_status,
        simp add: firmware_line_def, blast)
  with status_resume_sent [OF push sampled piece] inv ready' next_phase known statuses_known show ?thesis
    by (auto simp: g lines_inv_def)
qed (use inv in \<open>auto simp: lines_inv_def wifi_turn_def led_listen_def led_frame_def led_receive_def world_turn_def
      frame_simps split: option.splits prod.splits\<close>)

section \<open>The state the boot leaves\<close>

lemma boot_node_facts:
  assumes push: "bounded_buffer (push p)" and boot: "boot_node p b stack tasks link (Some cfg) s0 = Some f"
  obtains now1 now2 now free inputs where
    "NodeIdentity_new (push p) (env p) (cfg_ip cfg) = Some (fw_identity f)"
    "length (NODE_NAME (env p)) \<le> 65"
    "sent (fw_sys f) = sent s0 @ [version_line] @
      (if length (node_text (env p) (cfg_ip cfg) now1) \<le> 2048
       then [node_line (env p) (cfg_ip cfg) now1] else []) @
      [lease_create_line (env p) now2,
       status_line_of (fw_identity f) \<lparr>nsp_tracker = sr_tracker (fw_status f),
         nsp_custom = custom_entries (evaluate inputs) (ls_custom (sr_state (fw_status f))),
         nsp_heartbeat_unix = now\<rparr>,
       annotation_line (fw_identity f) free]"
    "fw_lease f = LeaseReconciler_new" "fw_status_at f = StatusStarting" "fw_led f = None"
    "RENEWAL_COUNT (fw_sys f) = RENEWAL_COUNT s0" "LED_SIGNAL (fw_sys f) = LED_SIGNAL s0"
    "wifi (fw_sys f) = wifi s0"
    "cs_value (ready (sr_tracker (fw_status f)))"
    "\<not> cs_value (disk_pressure (sr_tracker (fw_status f)))"
    "\<not> cs_value (pid_pressure (sr_tracker (fw_status f)))"
    "fw_stack f = stack" "spawn (task_slot b) Lease_reconciler tasks \<bind> spawn (task_slot b) Status_reconciler
      = Some (fw_tasks f)" "CondUnknown \<notin> set (tl (tracked (ls_custom (sr_state (fw_status f)))))"
proof -
  from boot obtain client identity t cu s1 ps qs ts us where
    id: "NodeIdentity_new (push p) (env p) (cfg_ip cfg) = Some identity"
    and bs: "bootstrap p client identity (info qs s0) = (t, cu, s1)"
    and ts: "spawn (task_slot b) Lease_reconciler tasks = Some us"
      "spawn (task_slot b) Status_reconciler us = Some ts"
    and f: "f = \<lparr>fw_client = client, fw_identity = identity, fw_stack = stack, fw_tasks = ts,
      fw_lease = LeaseReconciler_new, fw_lease_at = LeaseWaiting, fw_status = not_started t cu,
      fw_status_at = StatusStarting, fw_link = link, fw_led = None, fw_sys = info ps s1\<rparr>"
    unfolding boot_node_def Let_def Option.bind.simps
    by (clarsimp split: Option.bind_splits prod.splits)
  have name: "length (NODE_NAME (env p)) \<le> 65" and ip: "ni_ip identity = cfg_ip cfg"
    using id bounded_buffer.NodeIdentity_new_eq [OF push, of "env p" "cfg_ip cfg"]
      bounded_buffer.NodeIdentity_new_ip [OF push id] by (simp_all split: if_splits)
  have new_facts: "sr_tracker (not_started t cu) = t" "ls_custom (sr_state (not_started t cu)) = cu"
    by (simp_all add: not_started_def)
  from bs show thesis
  proof (rule bootstrap_facts [OF push name])
    fix now1 now2 now3 now free inputs
    assume sent: "sent s1 = sent (info qs s0) @ [version_line] @
      (if length (node_text (env p) (ni_ip identity) now1) \<le> 2048
       then [node_line (env p) (ni_ip identity) now1] else []) @
      [lease_create_line (env p) now2,
       status_line_of identity \<lparr>nsp_tracker = t, nsp_custom = custom_entries (evaluate inputs) cu,
         nsp_heartbeat_unix = now\<rparr>,
       annotation_line identity free]"
      and t: "t = (NodeCondTracker_new now3)\<lparr>memory_pressure := memory_pressure t\<rparr>"
      and frame: "boot_frame (info qs s0) s1"
      and tracked: "tracked cu = statuses (evaluate inputs)"
    have "ready t = CondState_new True now3" "disk_pressure t = CondState_new False now3"
      "pid_pressure t = CondState_new False now3"
      by (subst t, simp add: NodeCondTracker_new_def)+
    then show thesis
      using that [of now1 now2 inputs now free] id name sent frame new_facts tracked statuses_known ts
      by (simp add: f ip boot_frame_def adds_def same_statics_def frame_simps CondState_new_def)
  qed
qed

text \<open>
  \<open>boot\<close> is \<open>boot_node\<close> on a state in which nothing was sent or counted, with the tasks of the
  interface that came up.
\<close>

lemma greet_frame:
  "world (greet e s) = world s" "sent (greet e s) = sent s" "RENEWAL_COUNT (greet e s) = RENEWAL_COUNT s"
  "LED_SIGNAL (greet e s) = Some Connecting" "wifi (greet e s) = wifi s" "clock (greet e s) = clock s"
  by (simp_all add: greet_def Let_def led_set_def frame_simps)

lemma boot_cases:
  assumes "boot p b link config w = Some f"
  obtains cfg stack ph s0 where "config = Some cfg"
    "boot_node p b stack (Led_task # interface_tasks (ns_device stack)) ph (Some cfg) s0 = Some f"
    "sent s0 = []" "RENEWAL_COUNT s0 = 0" "LED_SIGNAL s0 = Some Connecting"
    "Connection_task \<notin> set (interface_tasks (ns_device stack)) \<longrightarrow> wifi s0 = wifi_init"
    "ns_seed stack = fst (net_seed p (sys_init w))"
    "case ns_device stack of Wired mac \<Rightarrow> mac = ap_mac b \<and> length mac = 6
     | Station ssid psk \<Rightarrow> ssid = WIFI_SSID (env p) \<and> psk = WIFI_PSK (env p)"
proof -
  obtain ph statics ls where link: "link = (ph, statics, ls)" by (metis prod.collapse)
  obtain seed s1 where seed: "net_seed p (greet (env p) (sys_init w)) = (seed, s1)" by fastforce
  have s1: "sent s1 = []" "RENEWAL_COUNT s1 = 0" "LED_SIGNAL s1 = Some Connecting" "wifi s1 = wifi_init"
    using seed by (auto simp: net_seed_def greet_frame Let_def sys_init_def split: prod.splits)
  have same_seed: "seed = fst (net_seed p (sys_init w))"
    using seed by (auto simp: net_seed_def greet_frame Let_def sys_init_def split: prod.splits)
  define ask where "ask = info [''asking ethernet if it wants to be the adult in the room''] s1"
  define dhcp :: "'a sys \<Rightarrow> 'a sys" where "dhcp = info [''waiting for DHCP lease (the original lease)...'']"
  from assms obtain spi stack tasks s2 where
    up: "bring_up b (env p) spi seed [Led_task] ask = Some (stack, tasks, s2)"
    and node: "(if Connection_task \<in> set tasks
        then boot_node p b stack tasks ph config (log_lines ls ((dhcp s2)\<lparr>wifi := statics\<rparr>))
        else boot_node p b stack tasks Knocking config (dhcp s2)) = Some f"
    by (auto simp: boot_def seed link spawn_def ask_def dhcp_def Let_def
        split: Option.bind_splits if_splits)
  note facts = bring_up_facts [OF up]
  have s2: "sent s2 = []" "RENEWAL_COUNT s2 = 0" "LED_SIGNAL s2 = Some Connecting" "wifi s2 = wifi_init"
    using facts(1,2) s1 by (simp_all add: same_statics_def ask_def frame_simps)
  have tasks: "tasks = Led_task # interface_tasks (ns_device stack)" using facts(4) by simp
  obtain cfg where cfg: "config = Some cfg"
    using node by (cases config) (auto simp: boot_node_def split: if_splits)
  show thesis
  proof (cases "Connection_task \<in> set tasks")
    case True
    with node s2 facts(3,5) show thesis
      by (intro that [of cfg stack ph "log_lines ls ((dhcp s2)\<lparr>wifi := statics\<rparr>)"])
        (simp_all add: cfg tasks same_seed dhcp_def frame_simps)
  next
    case False
    with node s2 facts(3,5) show thesis
      by (intro that [of cfg stack Knocking "dhcp s2"])
        (simp_all add: cfg tasks same_seed dhcp_def frame_simps)
  qed
qed

lemma boot_facts:
  assumes push: "bounded_buffer (push p)" and boot: "boot p b link config w = Some f"
  shows "fw_inv f f" "lines_inv p f" "RENEWAL_COUNT (fw_sys f) = 0"
    "cs_value (ready (sr_tracker (fw_status f)))"
    "\<not> cs_value (disk_pressure (sr_tracker (fw_status f)))"
    "\<not> cs_value (pid_pressure (sr_tracker (fw_status f)))"
    "Connection_task \<notin> set (fw_tasks f) \<Longrightarrow> wifi (fw_sys f) = wifi_init"
    "fw_status_at f = StatusStarting"
proof -
  from boot obtain cfg stack ph s0 where s0:
    "boot_node p b stack (Led_task # interface_tasks (ns_device stack)) ph (Some cfg) s0 = Some f"
    "sent s0 = []" "RENEWAL_COUNT s0 = 0" "LED_SIGNAL s0 = Some Connecting"
    "Connection_task \<notin> set (interface_tasks (ns_device stack)) \<longrightarrow> wifi s0 = wifi_init"
    by (rule boot_cases) blast
  from push s0(1) show "fw_inv f f" "lines_inv p f" "RENEWAL_COUNT (fw_sys f) = 0"
    "cs_value (ready (sr_tracker (fw_status f)))"
    "\<not> cs_value (disk_pressure (sr_tracker (fw_status f)))"
    "\<not> cs_value (pid_pressure (sr_tracker (fw_status f)))"
    "Connection_task \<notin> set (fw_tasks f) \<Longrightarrow> wifi (fw_sys f) = wifi_init"
    "fw_status_at f = StatusStarting"
  proof (atomize (full), rule boot_node_facts, goal_cases)
    case (1 now1 now2 now free inputs)
    have "firmware_line (env p) (fw_identity f) (status_line_of (fw_identity f)
      \<lparr>nsp_tracker = sr_tracker (fw_status f),
       nsp_custom = custom_entries (evaluate inputs) (ls_custom (sr_state (fw_status f))),
       nsp_heartbeat_unix = now\<rparr>)"
      using 1 by (intro firmware_line_status) (simp_all add: custom_entries_plain custom_entries_known)
    moreover have "ni_ip (fw_identity f) = cfg_ip cfg"
      using bounded_buffer.NodeIdentity_new_ip [OF push 1(1)] .
    ultimately have "lines_inv p f"
      using 1 s0(2) by (auto simp: lines_inv_def firmware_line_def)
    moreover have "fw_tasks f = Led_task # interface_tasks (ns_device stack) @ [Lease_reconciler, Status_reconciler]"
      using 1(14) by (auto simp: spawn_def split: Option.bind_splits if_splits dest: sym)
    ultimately show ?case
      using 1 s0 by (auto simp: fw_inv_def lease_inv_def led_honest_def fixed_conditions_def
          LeaseReconciler_new_def)
  qed
qed

section \<open>Where the boot panics\<close>

lemma boot_node_None_iff:
  assumes "bounded_buffer (push p)" "executor (task_slot b)"
    and "Lease_reconciler \<notin> set tasks" "Status_reconciler \<notin> set tasks"
  shows "boot_node p b stack tasks link config s = None \<longleftrightarrow> config = None \<or>
    parse_u16 (K3S_API_PORT_STR (env p)) = None \<or> parse_ipv4 (K3S_API_HOST (env p)) = None \<or>
    65 < length (NODE_NAME (env p))"
proof (cases "65 < length (NODE_NAME (env p))")
  case True
  then have "NodeIdentity_new (push p) (env p) ip = None" for ip
    using bounded_buffer.NodeIdentity_new_eq [OF assms(1), of "env p" ip] by simp
  then show ?thesis using True by (auto simp: boot_node_def Let_def bind_eq_None_conv)
next
  case False
  then obtain i where i: "NodeIdentity_new (push p) (env p) ip = Some (i ip)" for ip
    using bounded_buffer.NodeIdentity_new_eq [OF assms(1), of "env p"] by simp
  then have "NodeIdentity_clone (push p) (i ip) = Some (i ip)" for ip
    using bounded_buffer.NodeIdentity_clone_new [OF assms(1), of "env p" ip "i ip"] by simp
  moreover have "spawn (task_slot b) Lease_reconciler tasks = Some (tasks @ [Lease_reconciler])"
    "spawn (task_slot b) Status_reconciler (tasks @ [Lease_reconciler])
      = Some (tasks @ [Lease_reconciler, Status_reconciler])"
    using assms(3,4) executor.spawn_fresh [OF assms(2)] by simp_all
  ultimately show ?thesis
    using False by (auto simp: boot_node_def Let_def bind_eq_None_conv i split: prod.splits)
qed

lemma interface_tasks_fresh:
  "Lease_reconciler \<notin> set (interface_tasks d)" "Status_reconciler \<notin> set (interface_tasks d)"
  by (cases d; simp)+

lemma boot_None_iff:
  assumes "bounded_buffer (push p)" "executor (task_slot b)"
  shows "boot p b link config w = None \<longleftrightarrow>
    (case spi_new b 25 of None \<Rightarrow> True
     | Some spi \<Rightarrow> interface_fails b (env p) spi (world (snd (net_seed p (sys_init w))))) \<or>
    config = None \<or>
    parse_u16 (K3S_API_PORT_STR (env p)) = None \<or> parse_ipv4 (K3S_API_HOST (env p)) = None \<or>
    65 < length (NODE_NAME (env p))"
proof (cases "spi_new b 25")
  case None
  then show ?thesis by (simp add: boot_def Let_def bind_eq_None_conv split: prod.splits)
next
  case (Some spi)
  have led: "spawn (task_slot b) Led_task [] = Some [Led_task]"
    using executor.spawn_fresh [OF assms(2), of Led_task "[]"] by simp
  obtain seed s1 where seed: "net_seed p (greet (env p) (sys_init w)) = (seed, s1)" by fastforce
  then have world: "world s1 = world (snd (net_seed p (sys_init w)))"
    by (auto simp: net_seed_def greet_frame Let_def split: prod.splits)
  define ask where "ask = info [''asking ethernet if it wants to be the adult in the room''] s1"
  have ask: "world ask = world (snd (net_seed p (sys_init w)))" by (simp add: ask_def frame_simps world)
  note up = bring_up_None_iff [OF assms(2), of "[Led_task]" "env p" spi seed ask, unfolded ask]
  show ?thesis
  proof (cases "bring_up b (env p) spi seed [Led_task] ask")
    case None
    with up Some show ?thesis by (simp add: boot_def led seed ask_def)
  next
    case (Some up')
    then obtain stack tasks s2 where s2: "bring_up b (env p) spi seed [Led_task] ask = Some (stack, tasks, s2)"
      by (cases up') auto
    have "Lease_reconciler \<notin> set tasks" "Status_reconciler \<notin> set tasks"
      using bring_up_facts(4) [OF s2] interface_tasks_fresh by simp_all
    from boot_node_None_iff [OF assms this] s2 up \<open>spi_new b 25 = Some spi\<close> show ?thesis
      by (simp add: boot_def led seed ask_def Let_def split: prod.splits)
  qed
qed

section \<open>A node that boots\<close>

text \<open>A board on which no wired controller answers and the radio comes up.\<close>

definition silent_bus :: "'w spi" where
  "silent_bus hdr w = (None, w)"

definition sample_board :: "'w board" where
  "sample_board = \<lparr>task_slot = pool_of_one, spi_new = (\<lambda>mhz. Some silent_bus),
     ap_mac = [0x02, 0, 0, 0, 0, 1], wiznet_new = (\<lambda>mac w. (True, w)),
     wifi_new = (\<lambda>ssid psk w. (True, w))\<rparr>"

lemma sample_executor: "executor (task_slot sample_board)"
  by (simp add: sample_board_def one_slot.executor_axioms)

lemma sample_spi: "spi_new sample_board mhz = Some silent_bus"
  by (simp add: sample_board_def)

lemma sample_interface: "\<not> interface_fails sample_board e silent_bus w"
  by (simp add: interface_fails_def probe_w5500_def read_common_register_def silent_bus_def
      sample_board_def)

definition sample_config :: "config_v4 option" where
  "sample_config = Some \<lparr>cfg_ip = (10, 0, 0, 7), cfg_address = ''10.0.0.7/24'',
     cfg_gateway = ''Some(10.0.0.1)''\<rparr>"

definition sample_link :: "wifi_phase \<times> wifi_statics \<times> log_line list" where
  "sample_link = (Linked, \<lparr>WIFI_BSSID = 73588229205, WIFI_ASSOCIATIONS_TOTAL = 1\<rparr>, [])"

lemma sample_buffer: "bounded_buffer (push sample_node)"
  by (simp add: sample_node_def)

lemma sample_host: "parse_u16 ''6443'' \<noteq> None" "parse_ipv4 ''192.168.1.10'' \<noteq> None"
  by code_simp+

lemma sample_boots:
  obtains f0 where "boot sample_node sample_board sample_link sample_config (4200, []) = Some f0"
proof -
  have "parse_u16 (K3S_API_PORT_STR (env sample_node)) \<noteq> None"
    "parse_ipv4 (K3S_API_HOST (env sample_node)) \<noteq> None"
    "length (NODE_NAME (env sample_node)) \<le> 65"
    using sample_host by (simp_all add: sample_node_def sample_name) (simp_all add: sample_env_def)
  then have "boot sample_node sample_board sample_link sample_config (4200, []) \<noteq> None"
    using boot_None_iff [OF sample_buffer sample_executor, of sample_link sample_config "(4200, [])"]
    by (simp add: sample_spi sample_interface) (simp add: sample_config_def)
  then show thesis using that by blast
qed

section \<open>Properties\<close>

text \<open>C26. \<open>main\<close> panics exactly where the SPI peripheral or the driver of the interface the probe chose
  does not come up, where DHCP leaves no configuration, where the port of the build is not a
  number of 16 bits or its host not an IPv4 address, or where the name of the node is longer
  than 65 bytes, and it finds out before its first request. Spawning never fails, a chip that does
  not answer the probe only means Wi-Fi, and nothing that the API server answers makes it panic.\<close>

theorem boot_panics_iff:
  assumes "bounded_buffer (push p)" "executor (task_slot b)"
  shows "boot p b link config w = None \<longleftrightarrow>
    (case spi_new b 25 of None \<Rightarrow> True
     | Some spi \<Rightarrow> interface_fails b (env p) spi (world (snd (net_seed p (sys_init w))))) \<or>
    config = None \<or>
    parse_u16 (K3S_API_PORT_STR (env p)) = None \<or> parse_ipv4 (K3S_API_HOST (env p)) = None \<or>
    65 < length (NODE_NAME (env p))"
  by (rule boot_None_iff [OF assms])

lemma boot_panics_iff_witness:
  "boot (replay (sample_env (replicate 66 CHR ''n'')) []) sample_board sample_link sample_config (4200, []) = None"
  using boot_panics_iff [OF _ sample_executor, of "replay (sample_env (replicate 66 CHR ''n'')) []" sample_link
      sample_config "(4200, [])"]
  by (simp add: sample_name)

text \<open>C27. A firmware that boots runs the LED task, the two tasks of exactly one network interface and
  the two reconcilers, each once. The wired interface has the six bytes of the access point MAC, the
  wireless one the network of the build, and the stack has the two random words as its seed.\<close>

theorem boot_spawns_once:
  assumes "boot p b link config w = Some f"
  shows "fw_tasks f = Led_task # interface_tasks (ns_device (fw_stack f)) @ [Lease_reconciler, Status_reconciler] \<and>
    distinct (fw_tasks f) \<and> ns_seed (fw_stack f) = fst (net_seed p (sys_init w)) \<and>
    (case ns_device (fw_stack f) of
       Wired mac \<Rightarrow> mac = ap_mac b \<and> length mac = 6 \<and> Connection_task \<notin> set (fw_tasks f)
     | Station ssid psk \<Rightarrow> ssid = WIFI_SSID (env p) \<and> psk = WIFI_PSK (env p) \<and>
         Ethernet_task \<notin> set (fw_tasks f))"
proof -
  from assms obtain cfg stack ph s0 where node:
    "boot_node p b stack (Led_task # interface_tasks (ns_device stack)) ph (Some cfg) s0 = Some f"
    and stack: "ns_seed stack = fst (net_seed p (sys_init w))"
    "case ns_device stack of Wired mac \<Rightarrow> mac = ap_mac b \<and> length mac = 6
     | Station ssid psk \<Rightarrow> ssid = WIFI_SSID (env p) \<and> psk = WIFI_PSK (env p)"
    by (rule boot_cases) blast
  from node have "fw_stack f = stack" "fw_tasks f = Led_task # interface_tasks (ns_device stack) @
      [Lease_reconciler, Status_reconciler]"
    by (auto simp: boot_node_def Let_def spawn_def split: Option.bind_splits prod.splits if_splits)
  with stack show ?thesis by (cases "ns_device stack") simp_all
qed

lemma boot_spawns_once_witness:
  "\<exists>f. boot sample_node sample_board sample_link sample_config (4200, []) = Some f \<and> distinct (fw_tasks f)"
proof -
  obtain f0 where boot: "boot sample_node sample_board sample_link sample_config (4200, []) = Some f0"
    by (rule sample_boots)
  from boot_spawns_once [OF this] boot show ?thesis by blast
qed

end
