(* ===== verification/Deadline.thy ===== *)
theory Deadline
  imports Lease
begin

text \<open>
  Whether the lease outlives its renewal period. The lifecycle controller of the cluster declares a
  node lost when the \<open>renewTime\<close> of its lease is more than \<open>LEASE_DURATION_SECS\<close> old. Here the
  rounds of \<open>reconcilers/lease.rs\<close> are put on the clock of the platform: from how late a timer
  fires, how long the other tasks hold the lease task up and how long a round takes follows how
  old a \<open>renewTime\<close> is in the rounds after it, failed ones among them.
\<close>

section \<open>The budget\<close>

definition elapsed :: "'w platform \<Rightarrow> 'w \<Rightarrow> nat" where
  "elapsed p w = unat (fst (instant_millis p w))"

text \<open>
  What is assumed of the platform and the server, in milliseconds: the timer of a round fires at most
  \<open>late\<close> behind its time, and a call of \<open>reconcile\<close> is over within \<open>answer\<close>, whatever the server
  answers and whatever fails.
\<close>

definition on_time :: "'w platform \<Rightarrow> ApiClient \<Rightarrow> NodeIdentity \<Rightarrow> nat \<Rightarrow> nat \<Rightarrow> bool" where
  "on_time p c identity late answer \<longleftrightarrow>
     (\<forall>w. elapsed p (timer_after p interval w) \<le> elapsed p w + unat interval * 1000 + late) \<and>
     (\<forall>st s. elapsed p (world (snd (snd (lease_reconcile p (ReconcileContext_new c identity) st s))))
        \<le> elapsed p (world s) + answer)"

text \<open>
  What the other tasks do between two rounds: they take at most \<open>busy\<close>, do not set the clock and
  may make requests of their own.
\<close>

definition polite :: "'w platform \<Rightarrow> nat \<Rightarrow> ('w sys \<Rightarrow> 'w sys) \<Rightarrow> bool" where
  "polite p busy f \<longleftrightarrow> (\<forall>s. clock (f s) = clock s \<and> prefix (sent s) (sent (f s)) \<and>
     elapsed p (world (f s)) \<le> elapsed p (world s) + busy)"

text \<open>
  The history of a run: for every round whether its renewal was accepted, the \<open>renewTime\<close> it asked
  for, and what the clock of the node shows when the round is over.
\<close>

record lease_round =
  accepted :: bool
  asked_for :: u64
  over_at :: u64

fun lease_history ::
    "'w platform \<Rightarrow> ApiClient \<Rightarrow> NodeIdentity \<Rightarrow> ('w sys \<Rightarrow> 'w sys) list \<Rightarrow> LeaseReconciler \<Rightarrow> 'w sys
      \<Rightarrow> lease_round list" where
  "lease_history p c identity [] st s = []"
| "lease_history p c identity (others # rounds) st s =
     (let s = others s;
          (now, s1) = unix_now p (wait_secs p interval s);
          answer = fst (renew_lease p (KubeApi_new c) identity now s1);
          (st, s) = reconcile_round p ''lease'' (lease_reconcile p (ReconcileContext_new c identity)) st s
      in \<lparr>accepted = (answer = Inr Renewed), asked_for = now, over_at = fst (unix_now p s)\<rparr>
           # lease_history p c identity rounds st s)"

text \<open>How long after the end of the round before it a round is over, in milliseconds.\<close>

definition round_span :: "nat \<Rightarrow> nat \<Rightarrow> nat \<Rightarrow> nat" where
  "round_span late busy answer = 10000 + late + busy + answer"

section \<open>One round\<close>

lemma unix_now_elapsed:
  assumes "anchored (clock s)"
  shows "unat (fst (unix_now p s))
    = unat (anchor_unix (clock s)) + (elapsed p (world s) - unat (anchor_boot_ms (clock s))) div 1000"
  using unat_unix_now [OF assms] assms
  by (simp add: unix_now_def now_millis_def elapsed_def anchored_def split: prod.splits)

text \<open>A round counts its renewal when it is accepted, has asked for it either way, and is over
  \<open>answer\<close> after the time it asks for was read.\<close>

lemma lease_reconcile_counts:
  assumes "unix_now p s = (now, s1)" "lease_reconcile p (ReconcileContext_new c identity) st s = (res, st', s')"
  shows "lr_renewal_count st' = lr_renewal_count st +
    (if fst (renew_lease p (KubeApi_new c) identity now s1) = Inr Renewed then 1 else 0)"
  using assms
  by (auto simp: lease_reconcile_def Let_def split: prod.splits sum.splits LeaseRenewal.splits if_splits)

lemma lease_reconcile_asks:
  assumes "bounded_buffer (push p)" "length (NODE_NAME (env p)) \<le> 65" "unix_now p s = (now, s1)"
    "lease_reconcile p (ReconcileContext_new c identity) st s = (res, st', s')"
  shows "prefix (sent s) (sent s') \<and> lease_renew_line (env p) identity now \<in> set (sent s')"
proof -
  obtain r s2 where renew: "renew_lease p (KubeApi_new c) identity now s1 = (r, s2)" by fastforce
  have s2: "sent s2 = sent s @ [lease_renew_line (env p) identity now]"
    using renew_lease_adds [OF assms(1,2) renew] unix_now_frame [OF assms(3)] by (simp add: adds_def)
  have "prefix (sent s2) (sent s')"
    using assms(4)
    by (auto simp: lease_reconcile_def assms(3) renew Let_def frame_simps led_set_def adds_def
        split: sum.splits LeaseRenewal.splits if_splits prod.splits
        dest!: create_lease_adds [OF assms(1,2)] unix_now_frame)
  then show ?thesis using s2 by (auto simp: prefix_def)
qed

lemma round_on_time:
  assumes plat: "on_time p c identity late answer"
    and buf: "bounded_buffer (push p)" "length (NODE_NAME (env p)) \<le> 65"
    and now: "unix_now p (wait_secs p interval s) = (now, s1)"
    and round: "reconcile_round p ''lease'' (lease_reconcile p (ReconcileContext_new c identity)) st s = (st', s')"
  shows "elapsed p (world (wait_secs p interval s)) \<le> elapsed p (world s) + 10000 + late"
    "elapsed p (world s') \<le> elapsed p (world (wait_secs p interval s)) + answer"
    "clock s' = clock s"
    "lr_renewal_count st' = lr_renewal_count st +
      (if fst (renew_lease p (KubeApi_new c) identity now s1) = Inr Renewed then 1 else 0)"
    "prefix (sent s) (sent s')" "lease_renew_line (env p) identity now \<in> set (sent s')"
proof -
  let ?s = "wait_secs p interval s"
  obtain res s2 where rec: "lease_reconcile p (ReconcileContext_new c identity) st ?s = (res, st', s2)"
    and s': "world s' = world s2" "clock s' = clock s2" "sent s' = sent s2"
    using round by (auto simp: reconcile_round_def Let_def frame_simps split: prod.splits sum.splits)
  show "elapsed p (world ?s) \<le> elapsed p (world s) + 10000 + late"
    using plat by (simp add: on_time_def wait_secs_def interval_def LEASE_RENEW_PERIOD_SECS_def)
  have "elapsed p (world (snd (snd (lease_reconcile p (ReconcileContext_new c identity) st ?s))))
      \<le> elapsed p (world ?s) + answer"
    using plat unfolding on_time_def by blast
  then show "elapsed p (world s') \<le> elapsed p (world ?s) + answer" by (simp add: rec s')
  show "clock s' = clock s" using lease_reconcile_frame [OF rec] s' by (simp add: wait_secs_def)
  show "lr_renewal_count st' = lr_renewal_count st +
      (if fst (renew_lease p (KubeApi_new c) identity now s1) = Inr Renewed then 1 else 0)"
    by (rule lease_reconcile_counts [OF now rec])
  show "prefix (sent s) (sent s')" "lease_renew_line (env p) identity now \<in> set (sent s')"
    using lease_reconcile_asks [OF buf now rec] s' by (simp_all add: wait_secs_def)
qed

section \<open>A run\<close>

text \<open>The clock of the node, read when the platform's clock shows \<open>t\<close> milliseconds.\<close>

definition unix_at :: "wall_clock \<Rightarrow> nat \<Rightarrow> nat" where
  "unix_at wc t = unat (anchor_unix wc) + (t - unat (anchor_boot_ms wc)) div 1000"

lemma unat_add_le: "unat (a + b) \<le> unat a + unat b" for a b :: u64
  by (simp add: unat_word_ariths)

lemma unix_at_later:
  assumes "t' \<le> t + x" "x < 40000"
  shows "unix_at wc t' \<le> unix_at wc t + 40"
proof -
  let ?b = "unat (anchor_boot_ms wc)"
  have "t' - ?b \<le> (t - ?b) + 39999" using assms by simp
  then have "(t' - ?b) div 1000 \<le> ((t - ?b) + 39999) div 1000" by (rule div_le_mono)
  also have "\<dots> \<le> (t - ?b) div 1000 + 40" by simp
  finally show ?thesis by (simp add: unix_at_def)
qed

text \<open>When the round with number \<open>j\<close> is over.\<close>

lemma history_over:
  assumes plat: "on_time p c identity late answer"
    and buf: "bounded_buffer (push p)" "length (NODE_NAME (env p)) \<le> 65"
    and "list_all (polite p busy) rounds" "anchored (clock s)"
    and "j < length (lease_history p c identity rounds st s)"
  shows "\<exists>t. unat (over_at (lease_history p c identity rounds st s ! j)) = unix_at (clock s) t \<and>
    t \<le> elapsed p (world s) + Suc j * round_span late busy answer"
  using assms(4-)
proof (induction rounds arbitrary: j st s)
  case (Cons f rounds)
  obtain st1 s1 where round: "reconcile_round p ''lease'' (lease_reconcile p (ReconcileContext_new c identity)) st (f s) = (st1, s1)"
    by fastforce
  obtain now s2 where now: "unix_now p (wait_secs p interval (f s)) = (now, s2)" by fastforce
  note facts = round_on_time [OF plat buf now round]
  have polite: "clock (f s) = clock s" "elapsed p (world (f s)) \<le> elapsed p (world s) + busy"
    using Cons.prems(1) by (simp_all add: polite_def)
  have s1: "clock s1 = clock s" "elapsed p (world s1) \<le> elapsed p (world s) + round_span late busy answer"
    using facts(1-3) polite by (simp_all add: round_span_def)
  show ?case
  proof (cases j)
    case 0
    then show ?thesis
      using unix_now_elapsed [of s1 p] Cons.prems(2) s1 by (auto simp: round now Let_def unix_at_def)
  next
    case (Suc k)
    then have "\<exists>t. unat (over_at (lease_history p c identity rounds st1 s1 ! k)) = unix_at (clock s1) t \<and>
        t \<le> elapsed p (world s1) + Suc k * round_span late busy answer"
      using Cons.prems s1 by (intro Cons.IH) (simp_all add: round now Let_def)
    then obtain t where "unat (over_at (lease_history p c identity rounds st1 s1 ! k)) = unix_at (clock s1) t"
      "t \<le> elapsed p (world s1) + Suc k * round_span late busy answer" by blast
    then show ?thesis using s1 Suc by (intro exI [of _ t]) (simp add: round now Let_def)
  qed
qed simp

text \<open>How much later that is than the time the round with number \<open>i\<close> asked for.\<close>

lemma history_age:
  assumes plat: "on_time p c identity late answer"
    and buf: "bounded_buffer (push p)" "length (NODE_NAME (env p)) \<le> 65"
    and "list_all (polite p busy) rounds" "anchored (clock s)"
    and "i \<le> j" "j < length (lease_history p c identity rounds st s)"
  shows "\<exists>t t'. unat (asked_for (lease_history p c identity rounds st s ! i)) = unix_at (clock s) t \<and>
    unat (over_at (lease_history p c identity rounds st s ! j)) = unix_at (clock s) t' \<and>
    t' \<le> t + (answer + (j - i) * round_span late busy answer)"
  using assms(4-)
proof (induction rounds arbitrary: i j st s)
  case (Cons f rounds)
  let ?s = "wait_secs p interval (f s)"
  obtain st1 s1 where round: "reconcile_round p ''lease'' (lease_reconcile p (ReconcileContext_new c identity)) st (f s) = (st1, s1)"
    by fastforce
  obtain now s2 where now: "unix_now p ?s = (now, s2)" by fastforce
  note facts = round_on_time [OF plat buf now round]
  have clocks: "clock ?s = clock s" "clock s1 = clock s"
    using Cons.prems(1) facts(3) by (simp_all add: polite_def wait_secs_def)
  have head: "unat now = unix_at (clock s) (elapsed p (world ?s))"
    "unat (fst (unix_now p s1)) = unix_at (clock s) (elapsed p (world s1))"
    using unix_now_elapsed [of ?s p] unix_now_elapsed [of s1 p] Cons.prems(2)
    by (simp_all add: clocks now unix_at_def)
  let ?rest = "lease_history p c identity rounds st1 s1"
  show ?case
  proof (cases i)
    case (Suc k)
    then obtain l where j: "j = Suc l" using Cons.prems(3) by (cases j) simp_all
    have "\<exists>t t'. unat (asked_for (?rest ! k)) = unix_at (clock s1) t \<and> unat (over_at (?rest ! l)) = unix_at (clock s1) t' \<and>
        t' \<le> t + (answer + (l - k) * round_span late busy answer)"
      using Cons.prems clocks Suc j by (intro Cons.IH) (simp_all add: round now Let_def)
    then show ?thesis by (simp add: round now Let_def Suc j clocks)
  next
    case 0
    show ?thesis
    proof (cases j)
      case (Suc k)
      then have "\<exists>t. unat (over_at (?rest ! k)) = unix_at (clock s1) t \<and>
          t \<le> elapsed p (world s1) + Suc k * round_span late busy answer"
        using Cons.prems clocks by (intro history_over [OF plat buf]) (simp_all add: round now Let_def)
      then obtain t where "unat (over_at (?rest ! k)) = unix_at (clock s) t"
        "t \<le> elapsed p (world s1) + Suc k * round_span late busy answer"
        by (auto simp: clocks)
      then show ?thesis
        using 0 Suc head facts(2)
        by (intro exI [of _ "elapsed p (world ?s)"] exI [of _ t]) (simp add: round now Let_def)
    qed (use 0 head facts(2) in \<open>auto simp: round now Let_def\<close>)
  qed
qed simp

lemma history_in_time:
  assumes "on_time p c identity late answer" "bounded_buffer (push p)" "length (NODE_NAME (env p)) \<le> 65"
    and "answer + gap * round_span late busy answer < 40000"
    and "list_all (polite p busy) rounds" "anchored (clock s)"
    and "i \<le> j" "j \<le> i + gap" "j < length (lease_history p c identity rounds st s)"
  shows "unat (over_at (lease_history p c identity rounds st s ! j))
    \<le> unat (asked_for (lease_history p c identity rounds st s ! i)) + unat LEASE_DURATION_SECS"
proof -
  obtain t t' where t: "unat (asked_for (lease_history p c identity rounds st s ! i)) = unix_at (clock s) t"
    "unat (over_at (lease_history p c identity rounds st s ! j)) = unix_at (clock s) t'"
    "t' \<le> t + (answer + (j - i) * round_span late busy answer)"
    using history_age [OF assms(1-3,5,6,7,9)] by blast
  have "(j - i) * round_span late busy answer \<le> gap * round_span late busy answer"
    using assms(8) by (intro mult_right_mono) simp_all
  then have "t' \<le> t + (answer + gap * round_span late busy answer)" using t(3) by linarith
  from unix_at_later [OF this assms(4), of "clock s"] show ?thesis
    by (simp add: t LEASE_DURATION_SECS_def)
qed

lemma run_asks:
  assumes plat: "on_time p c identity late answer"
    and buf: "bounded_buffer (push p)" "length (NODE_NAME (env p)) \<le> 65"
    and "list_all (polite p busy) rounds"
    and "run_rounds p ''lease'' (lease_reconcile p (ReconcileContext_new c identity)) rounds st s = (st', s')"
  shows "length (lease_history p c identity rounds st s) = length rounds \<and>
    lr_renewal_count st' = lr_renewal_count st +
      of_nat (length (filter accepted (lease_history p c identity rounds st s))) \<and>
    prefix (sent s) (sent s') \<and>
    list_all (\<lambda>r. lease_renew_line (env p) identity (asked_for r) \<in> set (sent s'))
      (lease_history p c identity rounds st s)"
  using assms(4-)
proof (induction rounds arbitrary: st s)
  case (Cons f rounds)
  obtain st1 s1 where round: "reconcile_round p ''lease'' (lease_reconcile p (ReconcileContext_new c identity)) st (f s) = (st1, s1)"
    by fastforce
  obtain now s2 where now: "unix_now p (wait_secs p interval (f s)) = (now, s2)" by fastforce
  note facts = round_on_time [OF plat buf now round]
  have rest: "run_rounds p ''lease'' (lease_reconcile p (ReconcileContext_new c identity)) rounds st1 s1 = (st', s')"
    using Cons.prems(2) round by simp
  note IH = Cons.IH [OF _ rest]
  have polite: "list_all (polite p busy) rounds" "prefix (sent s) (sent (f s))"
    using Cons.prems(1) by (simp_all add: polite_def [of p busy f])
  then have "prefix (sent s) (sent s1)" using facts(5) by (meson prefix_order.trans)
  moreover have "lease_renew_line (env p) identity now \<in> set (sent s')"
    using IH [OF polite(1)] facts(6) set_mono_prefix by blast
  ultimately show ?case using IH [OF polite(1)] facts(4) by (auto simp: round now Let_def)
qed simp

section \<open>The sample node\<close>

lemma sample_renewal:
  obtains s' where "renew_lease sample_node (KubeApi_new sample_client) sample_identity now s = (Inr Renewed, s')"
    "fst (world s') = fst (world s)"
proof -
  let ?text = "lease_text (sample_env ''heinrich'') now"
  have "length ?text \<le> 512"
    using length_LeaseBody [of "sample_env ''heinrich''" "timestamp now"] length_timestamp [of now]
    by (simp add: lease_text_def sample_name)
  then have "length (dec (length ?text)) \<le> 3" by (intro length_dec_le) simp_all
  then obtain resp w where answer: "exchange sample_node sample_client ''PATCH'' ''application/merge-patch+json''
      (ni_lease_path sample_identity) (Some ?text) (world s) = (Inr resp, w)" "rs_status resp = 200"
    using sample_exchange [of "''PATCH''" "ni_lease_path sample_identity" "''application/merge-patch+json''"
        "Some ?text" "world s"]
    by (auto simp: sample_identity_def)
  have env: "env sample_node = sample_env ''heinrich''" "bounded_buffer (push sample_node)"
    by (simp_all add: sample_node_def)
  have "LeaseBody_write_json (push sample_node) (sample_env ''heinrich'') now [] = Some ?text"
    by (rule bounded_buffer.LeaseBody_write_fits [OF env(2)]) (simp add: sample_name)
  then show thesis
    using patch_merge_exchange [OF answer(1)] answer(2) sample_exchange_clock [OF answer(1)]
    by (intro that [of "snd (renew_lease sample_node (KubeApi_new sample_client) sample_identity now s)"])
      (simp_all add: renew_lease_def as_str_def env)
qed

lemma sample_renews: "fst (renew_lease sample_node (KubeApi_new sample_client) sample_identity now s) = Inr Renewed"
  by (rule sample_renewal [of now s]) simp

text \<open>The sample node through an outage: for some 20 s nothing answers at the address of the server.\<close>

definition out_of_reach :: "u64 \<Rightarrow> bool" where
  "out_of_reach t \<longleftrightarrow> 20000 < t \<and> t < 40000"

definition outage :: "(u64 \<times> bytes) platform" where
  "outage = sample_node\<lparr>tcp_connect := (\<lambda>sock ip port w.
     if out_of_reach (fst w) then (Some ''TimedOut'', w) else tcp_connect sample_node sock ip port w)\<rparr>"

lemma outage_sel [simp]:
  "env outage = env sample_node" "push outage = push sample_node"
  "instant_millis outage w = (fst w, w)" "timer_after outage n w = (fst w + n * 1000, snd w)"
  by (simp_all add: outage_def sample_node_def replay_def)

lemma chacha_seed_cong: "rng_random q = rng_random p \<Longrightarrow> chacha_seed q n w = chacha_seed p n w"
  by (induction n arbitrary: w) simp_all

lemma read_response_cong: "tls_read q = tls_read p \<Longrightarrow> read_response q cap buf w = read_response p cap buf w"
proof (induction p cap buf w rule: read_response.induct)
  case (1 p cap buf w)
  note IH = "1.IH" [OF _ _ _ _ _ "1.prems"]
  show ?case
    by (subst read_response.simps, subst (2) read_response.simps)
      (auto simp: "1.prems" IH Let_def split: prod.splits sum.splits TlsError.splits)
qed

lemma outage_exchange:
  "exchange outage c m ct path b w =
    (if out_of_reach (fst w) then (Inl (ApiError_from_ConnectError ''TimedOut''), w)
     else exchange sample_node c m ct path b w)"
proof -
  have net: "tls_open outage = tls_open sample_node" "tls_write_all outage = tls_write_all sample_node"
    "tls_flush outage = tls_flush sample_node" "tls_close outage = tls_close sample_node"
    "tcp_connect outage sock ip port v =
      (if out_of_reach (fst v) then (Some ''TimedOut'', v) else tcp_connect sample_node sock ip port v)"
    for sock ip port v
    by (simp_all add: outage_def)
  have same: "chacha_seed outage = chacha_seed sample_node" "read_response outage = read_response sample_node"
    by (intro ext chacha_seed_cong read_response_cong; simp add: outage_def)+
  show ?thesis unfolding exchange_def net(1-4) same outage_sel by (simp add: net(5))
qed

lemma outage_renewal:
  obtains (reached) s' where "\<not> out_of_reach (fst (world s))" "fst (world s') = fst (world s)"
      "renew_lease outage (KubeApi_new sample_client) sample_identity now s = (Inr Renewed, s')"
  | (failed) e s' where "out_of_reach (fst (world s))" "fst (world s') = fst (world s)"
      "renew_lease outage (KubeApi_new sample_client) sample_identity now s = (Inl e, s')"
proof (cases "out_of_reach (fst (world s))")
  case True
  have "bounded_buffer (push sample_node)" "length (NODE_NAME (env sample_node)) \<le> 65"
    by (simp_all add: sample_node_def sample_name)
  from bounded_buffer.LeaseBody_write_fits [OF this] True
  have "fst (world (snd (renew_lease outage (KubeApi_new sample_client) sample_identity now s))) = fst (world s)"
    "\<exists>e. fst (renew_lease outage (KubeApi_new sample_client) sample_identity now s) = Inl e"
    by (simp_all add: renew_lease_def patch_merge_def request_def outage_exchange Let_def)
  then show thesis using failed [OF True] by (metis prod.collapse)
next
  case False
  then have same: "patch_merge outage c path b s = patch_merge sample_node c path b s" for c path b
    by (simp add: patch_merge_def request_def outage_exchange)
  have "renew_lease outage (KubeApi_new sample_client) sample_identity now s =
      renew_lease sample_node (KubeApi_new sample_client) sample_identity now s"
    unfolding renew_lease_def outage_sel same by (rule refl)
  moreover obtain s' where "renew_lease sample_node (KubeApi_new sample_client) sample_identity now s = (Inr Renewed, s')"
    "fst (world s') = fst (world s)" by (rule sample_renewal)
  ultimately show thesis using reached [OF False, of s'] by simp
qed

lemma outage_now: "unix_now outage s = (now, s1) \<Longrightarrow> world s1 = world s"
  by (auto simp: unix_now_def now_millis_def split: if_splits)

lemma outage_reconcile:
  "fst (world (snd (snd (lease_reconcile outage (ReconcileContext_new sample_client sample_identity) st s))))
    = fst (world s)"
proof -
  obtain now s1 where now: "unix_now outage s = (now, s1)" by fastforce
  note world = outage_now [OF now]
  show ?thesis
  proof (cases rule: outage_renewal [of s1 now])
    case (reached s')
    then show ?thesis using world by (simp add: lease_reconcile_renewed [OF now reached(3)] led_set_def frame_simps)
  next
    case (failed e s')
    then show ?thesis using world by (simp add: lease_reconcile_def now)
  qed
qed

lemma outage_on_time: "on_time outage sample_client sample_identity 0 0"
proof -
  have time: "elapsed outage w = unat (fst w)" for w by (simp add: elapsed_def)
  have "unat (a + 10000) \<le> unat a + 10000" for a :: u64
    using unat_add_le [of a 10000] by simp
  then show ?thesis
    unfolding on_time_def by (simp add: time outage_reconcile interval_def LEASE_RENEW_PERIOD_SECS_def)
qed

text \<open>Which rounds are accepted, from the time the first of them begins.\<close>

fun accepted_from :: "u64 \<Rightarrow> nat \<Rightarrow> bool list" where
  "accepted_from t 0 = []"
| "accepted_from t (Suc n) = (\<not> out_of_reach (t + 10000)) # accepted_from (t + 10000) n"

lemma outage_history:
  "map accepted (lease_history outage sample_client sample_identity (replicate n (\<lambda>s. s)) st s)
    = accepted_from (fst (world s)) n"
proof (induction n arbitrary: st s)
  case (Suc n)
  let ?s = "wait_secs outage interval s"
  obtain now s1 where now: "unix_now outage ?s = (now, s1)" by fastforce
  obtain st' s' where round: "reconcile_round outage ''lease''
      (lease_reconcile outage (ReconcileContext_new sample_client sample_identity)) st s = (st', s')"
    by fastforce
  have wait: "fst (world ?s) = fst (world s) + 10000"
    by (simp add: wait_secs_def interval_def LEASE_RENEW_PERIOD_SECS_def)
  have "fst (world s') = fst (world ?s)"
    using round outage_reconcile [of st ?s]
    by (auto simp: reconcile_round_def Let_def frame_simps split: prod.splits sum.splits)
  moreover have "fst (renew_lease outage (KubeApi_new sample_client) sample_identity now s1) = Inr Renewed
      \<longleftrightarrow> \<not> out_of_reach (fst (world ?s))"
    using outage_now [OF now] by (cases rule: outage_renewal [of s1 now]) auto
  ultimately show ?case by (simp add: now round Suc.IH wait Let_def)
qed simp

section \<open>Properties\<close>

text \<open>When every renewal is accepted, all of them count and each follows the one before it in time.\<close>

lemma accepted_in_time:
  assumes "on_time p c identity late answer" "bounded_buffer (push p)" "length (NODE_NAME (env p)) \<le> 65"
    and "\<And>now t. fst (renew_lease p (KubeApi_new c) identity now t) = Inr Renewed"
    and "late + busy + 2 * answer < 30000" "list_all (polite p busy) rounds" "anchored (clock s)"
  shows "list_all accepted (lease_history p c identity rounds st s)"
    "Suc i < length (lease_history p c identity rounds st s) \<Longrightarrow>
      unat (over_at (lease_history p c identity rounds st s ! Suc i))
        \<le> unat (asked_for (lease_history p c identity rounds st s ! i)) + unat LEASE_DURATION_SECS"
proof -
  show "list_all accepted (lease_history p c identity rounds st s)"
    by (induction rounds arbitrary: st s) (simp_all add: split_def Let_def assms(4))
  show "unat (over_at (lease_history p c identity rounds st s ! Suc i))
        \<le> unat (asked_for (lease_history p c identity rounds st s ! i)) + unat LEASE_DURATION_SECS"
    if "Suc i < length (lease_history p c identity rounds st s)"
    by (rule history_in_time [OF assms(1-3) _ assms(6,7) _ _ that, of 1])
      (use assms(5) in \<open>simp_all add: round_span_def\<close>)
qed

text \<open>C7. The lease outlives failed renewals. Suppose a timer fires at most \<open>late\<close> behind its time, a
  round takes at most \<open>answer\<close>, accepted or not, the other tasks hold the lease task up by at most
  \<open>busy\<close>, and \<open>gap\<close> such rounds and one more \<open>answer\<close> fit into 40 s. Then every round asks for a
  renewal with the time it read, exactly the accepted ones are counted, and what the lease was given
  in one round is not older than \<open>LEASE_DURATION_SECS\<close> when any of the next \<open>gap\<close> rounds is over:
  \<open>gap - 1\<close> failures in a row do not cost the node its lease.\<close>

theorem lease_never_expires:
  assumes "on_time p c identity late answer" "list_all (polite p busy) rounds"
    and "answer + gap * round_span late busy answer < 40000"
    and "bounded_buffer (push p)" "length (NODE_NAME (env p)) \<le> 65" "anchored (clock s)"
    and "lease_reconciler p c identity rounds s = (st', s')"
  shows "let history = lease_history p c identity rounds LeaseReconciler_new s in
    length history = length rounds \<and> lr_renewal_count st' = of_nat (length (filter accepted history)) \<and>
    list_all (\<lambda>r. lease_renew_line (env p) identity (asked_for r) \<in> set (sent s')) history \<and>
    (\<forall>i j. i \<le> j \<longrightarrow> j \<le> i + gap \<longrightarrow> j < length rounds \<longrightarrow>
      unat (over_at (history ! j)) \<le> unat (asked_for (history ! i)) + unat LEASE_DURATION_SECS)"
proof -
  let ?history = "lease_history p c identity rounds LeaseReconciler_new s"
  have run: "run_rounds p ''lease'' (lease_reconcile p (ReconcileContext_new c identity)) rounds LeaseReconciler_new s = (st', s')"
    using assms(7) by (simp add: lease_reconciler_def run_def)
  note facts = run_asks [OF assms(1,4,5,2) run]
  have "unat (over_at (?history ! j)) \<le> unat (asked_for (?history ! i)) + unat LEASE_DURATION_SECS"
    if "i \<le> j" "j \<le> i + gap" "j < length rounds" for i j
    by (rule history_in_time [OF assms(1,4,5,3,2,6) that(1,2)]) (use facts that(3) in simp)
  then show ?thesis using facts by (simp add: Let_def LeaseReconciler_new_def)
qed

lemma lease_never_expires_witness:
  "let s = sample_sys\<lparr>clock := set_wall_clock 1777736837 4200 wall_clock_init\<rparr>;
       rounds = replicate 4 (\<lambda>s. s);
       history = lease_history outage sample_client sample_identity rounds LeaseReconciler_new s
   in map accepted history = [True, False, False, True] \<and>
      lr_renewal_count (fst (lease_reconciler outage sample_client sample_identity rounds s)) = 2 \<and>
      unat (over_at (history ! 3)) \<le> unat (asked_for (history ! 0)) + 40"
proof -
  let ?s = "sample_sys\<lparr>clock := set_wall_clock 1777736837 4200 wall_clock_init\<rparr>"
  let ?rounds = "replicate 4 (\<lambda>s. s) :: ((u64 \<times> bytes) sys \<Rightarrow> (u64 \<times> bytes) sys) list"
  let ?history = "lease_history outage sample_client sample_identity ?rounds LeaseReconciler_new ?s"
  obtain st' s' where run: "lease_reconciler outage sample_client sample_identity ?rounds ?s = (st', s')"
    by fastforce
  have clock: "anchored (clock ?s)" by simp code_simp
  have polite: "list_all (polite outage 0) ?rounds" by (simp add: polite_def list_all_iff)
  have node: "bounded_buffer (push outage)" "length (NODE_NAME (env outage)) \<le> 65"
    by (simp_all add: sample_node_def sample_name)
  have "fst (world ?s) = 4200" by (simp add: sample_sys_def sys_init_def)
  moreover have "accepted_from 4200 4 = [True, False, False, True]" by code_simp
  ultimately have flags: "map accepted ?history = [True, False, False, True]"
    by (simp only: outage_history)
  have "length (filter accepted ?history) = length (filter id (map accepted ?history))"
    by (simp only: length_filter_map o_def id_apply)
  also have "\<dots> = 2" unfolding flags by simp
  finally have "length (filter accepted ?history) = 2" .
  moreover have "unat LEASE_DURATION_SECS = 40" by (simp add: LEASE_DURATION_SECS_def)
  ultimately show ?thesis
    using lease_never_expires [OF outage_on_time polite _ node clock run, of 3] flags
    by (simp add: Let_def round_span_def run del: lease_history.simps)
qed

end
