(* ===== verification/Protocol.thy ===== *)
theory Protocol
  imports Firmware Deadline
begin

text \<open>
  What the node promises to the cluster, as an abstract state machine, and the proof that the
  firmware implements it. The machine has no requests, no phases of tasks and no network: it
  counts renewals, keeps a value and the time of its last change for every condition, and
  decides what to push. Every turn of every task is a step of it.
\<close>

section \<open>The abstract machine\<close>

text \<open>A condition with the time since which it has its value.\<close>

definition flip :: "u64 \<Rightarrow> 'a \<Rightarrow> 'a \<times> u64 \<Rightarrow> 'a \<times> u64" where
  "flip now v c = (if fst c = v then c else (v, now))"

record node_spec =
  spec_renewals :: u32
  spec_announced :: bool
  spec_started :: bool
  spec_memory :: "bool \<times> u64"
  spec_custom :: "(CondStatus \<times> u64) list"
  spec_last_push :: u64
  spec_pushing :: "u64 option"

inductive spec_step :: "node_spec \<Rightarrow> node_spec \<Rightarrow> bool" where
  spec_stutter: "spec_step s s"
| spec_renew: "spec_step s (s\<lparr>spec_renewals := spec_renewals s + 1, spec_announced := True\<rparr>)"
| spec_start:
    "\<not> spec_started s \<Longrightarrow> spec_step s (s\<lparr>spec_started := True, spec_last_push := now\<rparr>)"
| spec_observe:
    "spec_started s \<Longrightarrow> spec_pushing s = None \<Longrightarrow> length vs = length (spec_custom s) \<Longrightarrow>
     memory = flip now v (spec_memory s) \<Longrightarrow> custom = map2 (flip now) vs (spec_custom s) \<Longrightarrow>
     spec_step s (s\<lparr>spec_memory := memory, spec_custom := custom,
       spec_pushing :=
         (if memory \<noteq> spec_memory s \<or> custom \<noteq> spec_custom s \<or> due now (spec_last_push s)
          then Some now else None)\<rparr>)"
| spec_pushed:
    "spec_pushing s = Some now \<Longrightarrow> spec_step s (s\<lparr>spec_last_push := now, spec_pushing := None\<rparr>)"
| spec_failed: "spec_pushing s = Some now \<Longrightarrow> spec_step s (s\<lparr>spec_pushing := None\<rparr>)"

section \<open>The abstraction\<close>

definition custom_view :: "CustomCondTracker \<Rightarrow> (CondStatus \<times> u64) list" where
  "custom_view t = map (\<lambda>c. (ccs_status c, ccs_transitioned_at c))
     [vibes t, caffeinated t, existential t, peckish t, haunted t]"

definition memory_view :: "NodeCondTracker \<Rightarrow> bool \<times> u64" where
  "memory_view t = (cs_value (memory_pressure t), cs_transitioned_at (memory_pressure t))"

fun pushing :: "status_phase \<Rightarrow> u64 option" where
  "pushing StatusStarting = None"
| "pushing StatusWaiting = None"
| "pushing (StatusPatching sm ok_line) = Some (sm_now sm)"
| "pushing (StatusAnnotating sm) = Some (sm_now sm)"

definition view :: "'w fw \<Rightarrow> node_spec" where
  "view f = \<lparr>spec_renewals = lr_renewal_count (fw_lease f), spec_announced = lr_healthy (fw_lease f),
     spec_started = (fw_status_at f \<noteq> StatusStarting),
     spec_memory = memory_view (sr_tracker (fw_status f)),
     spec_custom = custom_view (ls_custom (sr_state (fw_status f))),
     spec_last_push = sr_last_status_update (fw_status f),
     spec_pushing = pushing (fw_status_at f)\<rparr>"

section \<open>The simulation\<close>

lemma observe_custom_view:
  "custom_view (snd (observe_custom ev now t)) = map2 (flip now) (statuses ev) (custom_view t)"
  by (cases t) (simp add: observe_custom_def custom_view_def statuses_def flip_def
      CustomCondState_observe_def split: prod.split)

lemma CondState_observe_view:
  "(\<lambda>c. (cs_value c, cs_transitioned_at c)) (snd (CondState_observe v now c))
    = flip now v (cs_value c, cs_transitioned_at c)"
  by (auto simp: CondState_observe_def flip_def Let_def)

text \<open>A pair list differs from its flips exactly if a value does.\<close>

lemma flip_eq: "flip now v c = c \<longleftrightarrow> fst c = v"
  by (cases c) (auto simp: flip_def)

lemma map2_flip_eq:
  "length vs = length cs \<Longrightarrow> map2 (flip now) vs cs = cs \<longleftrightarrow> vs = map fst cs"
  by (induction vs cs rule: list_induct2) (auto simp: flip_eq)

lemma status_sample_view:
  assumes "status_sample p st s = (sm, st', s')"
  shows "memory_view (sr_tracker st')
      = flip (sm_now sm) (sm_free sm < MEMORY_PRESSURE_FREE_BYTES) (memory_view (sr_tracker st))"
    and "custom_view (ls_custom (sr_state st'))
      = map2 (flip (sm_now sm)) (statuses (sm_evaluated sm)) (custom_view (ls_custom (sr_state st)))"
  using assms
  by (auto simp: status_sample_def Let_def memory_view_def CondState_observe_view
      observe_custom_view [symmetric] split: prod.splits)
    (metis CondState_observe_view snd_conv)

lemma lease_resume_state:
  assumes "lease_resume p c identity (ph, st, s) = (ph', st', s')"
  shows "st' = st \<or> st' = \<lparr>lr_healthy = True, lr_renewal_count = lr_renewal_count st + 1\<rparr>"
  using assms
  by (cases ph; cases st) (auto simp: Let_def split: prod.splits sum.splits LeaseRenewal.splits if_splits)

lemma lease_turn_spec: "spec_step (view f) (view (lease_turn p f))"
proof -
  obtain ph st s where piece: "lease_resume p (fw_client f) (fw_identity f)
      (fw_lease_at f, fw_lease f, fw_sys f) = (ph, st, s)" by (metis prod.collapse)
  have g: "lease_turn p f = f\<lparr>fw_lease_at := ph, fw_lease := st, fw_sys := s\<rparr>"
    by (simp add: lease_turn_def piece)
  from lease_resume_state [OF piece] show ?thesis
  proof
    assume "st = fw_lease f"
    then have "view (lease_turn p f) = view f" by (simp add: g view_def)
    then show ?thesis by (simp add: spec_stutter)
  next
    assume st: "st = \<lparr>lr_healthy = True, lr_renewal_count = lr_renewal_count (fw_lease f) + 1\<rparr>"
    have "view (lease_turn p f)
      = view f\<lparr>spec_renewals := spec_renewals (view f) + 1, spec_announced := True\<rparr>"
      by (simp add: g view_def st)
    then show ?thesis by (simp only: spec_renew)
  qed
qed

text \<open>The decision of a sample is the decision of the machine.\<close>

lemma sample_decision:
  assumes "status_sample p st s = (sm, st', s')"
  shows "sm_push sm \<longleftrightarrow> memory_view (sr_tracker st') \<noteq> memory_view (sr_tracker st) \<or>
    custom_view (ls_custom (sr_state st')) \<noteq> custom_view (ls_custom (sr_state st)) \<or>
    due (sm_now sm) (sr_last_status_update st)"
proof -
  let ?cu = "ls_custom (sr_state st)"
  have len: "length (statuses (sm_evaluated sm)) = length (custom_view ?cu)"
    by (simp add: statuses_def custom_view_def)
  have "map fst (custom_view ?cu) = tracked ?cu" by (simp add: custom_view_def tracked_def)
  then have "custom_view (ls_custom (sr_state st')) = custom_view ?cu \<longleftrightarrow>
      statuses (sm_evaluated sm) = tracked ?cu"
    unfolding status_sample_view(2) [OF assms] map2_flip_eq [OF len] by simp
  moreover have "fst (memory_view (sr_tracker st)) = cs_value (memory_pressure (sr_tracker st))"
    by (simp add: memory_view_def)
  then have "memory_view (sr_tracker st') = memory_view (sr_tracker st) \<longleftrightarrow>
      (sm_free sm < MEMORY_PRESSURE_FREE_BYTES) = cs_value (memory_pressure (sr_tracker st))"
    unfolding status_sample_view(1) [OF assms] flip_eq by auto
  ultimately show ?thesis
    using status_sample_facts(2) [OF assms] by blast
qed

lemma waiting_turn_spec:
  assumes "fw_status_at f = StatusWaiting"
  shows "spec_step (view f) (view (status_turn p f))"
proof -
  obtain sm st s where sample: "status_sample p (fw_status f) (wait_secs p interval (fw_sys f)) = (sm, st, s)"
    by (metis prod.collapse)
  let ?m = "memory_view (sr_tracker st)" and ?c = "custom_view (ls_custom (sr_state st))"
  let ?v = "view f"
  have v: "spec_memory ?v = memory_view (sr_tracker (fw_status f))"
    "spec_custom ?v = custom_view (ls_custom (sr_state (fw_status f)))"
    "spec_last_push ?v = sr_last_status_update (fw_status f)" "spec_pushing ?v = None" "spec_started ?v"
    by (simp_all add: view_def assms)
  have "length (statuses (sm_evaluated sm)) = length (spec_custom ?v)"
    by (simp add: statuses_def custom_view_def view_def)
  moreover have "?m = flip (sm_now sm) (sm_free sm < MEMORY_PRESSURE_FREE_BYTES) (spec_memory ?v)"
    "?c = map2 (flip (sm_now sm)) (statuses (sm_evaluated sm)) (spec_custom ?v)"
    unfolding v by (fact status_sample_view [OF sample])+
  ultimately have "spec_step ?v (?v\<lparr>spec_memory := ?m, spec_custom := ?c, spec_pushing :=
      (if ?m \<noteq> spec_memory ?v \<or> ?c \<noteq> spec_custom ?v \<or> due (sm_now sm) (spec_last_push ?v)
       then Some (sm_now sm) else None)\<rparr>)"
    by (rule spec_observe [OF v(5,4)])
  moreover have "(?m \<noteq> spec_memory ?v \<or> ?c \<noteq> spec_custom ?v \<or> due (sm_now sm) (spec_last_push ?v))
      = sm_push sm"
    unfolding v sample_decision [OF sample] by blast
  moreover have "view (status_turn p f) = ?v\<lparr>spec_memory := ?m, spec_custom := ?c,
      spec_pushing := if sm_push sm then Some (sm_now sm) else None\<rparr>"
    using status_sample_facts(6) [OF sample]
    by (simp add: status_turn_def assms sample view_def Let_def)
  ultimately show ?thesis by simp
qed

lemma status_turn_spec: "spec_step (view f) (view (status_turn p f))"
proof (cases "fw_status_at f")
  case StatusStarting
  obtain st s where new: "StatusReconciler_new p (sr_tracker (fw_status f)) (ls_custom (sr_state (fw_status f)))
      (fw_sys f) = (st, s)" by fastforce
  have "\<not> spec_started (view f)" by (simp add: view_def StatusStarting)
  moreover have "view (status_turn p f)
      = view f\<lparr>spec_started := True, spec_last_push := sr_last_status_update st\<rparr>"
    using StatusReconciler_new_facts(1,2) [OF new] by (simp add: status_turn_def StatusStarting new view_def)
  ultimately show ?thesis by (simp add: spec_start)
next
  case StatusWaiting
  then show ?thesis by (rule waiting_turn_spec)
next
  case (StatusPatching sm ok_line)
  obtain r s where patch: "patch_node_status p (KubeApi_new (fw_client f)) (fw_identity f) (sr_tracker (fw_status f))
      (custom_entries (sm_evaluated sm) (ls_custom (sr_state (fw_status f)))) (sm_now sm) (fw_sys f) = (r, s)"
    by fastforce
  have pushing: "spec_pushing (view f) = Some (sm_now sm)" by (simp add: view_def StatusPatching)
  show ?thesis
  proof (cases r)
    case (Inl e)
    then have "view (status_turn p f) = view f\<lparr>spec_pushing := None\<rparr>"
      by (simp add: status_turn_def StatusPatching patch view_def)
    with spec_failed [OF pushing] show ?thesis by simp
  next
    case (Inr u)
    then have "view (status_turn p f) = view f"
      by (simp add: status_turn_def StatusPatching patch view_def)
    then show ?thesis by (simp add: spec_stutter)
  qed
next
  case (StatusAnnotating sm)
  obtain r s where patch: "patch_heap_annotation p (KubeApi_new (fw_client f)) (fw_identity f) (sm_free sm) (fw_sys f) = (r, s)"
    by fastforce
  have pushing: "spec_pushing (view f) = Some (sm_now sm)" by (simp add: view_def StatusAnnotating)
  show ?thesis
  proof (cases r)
    case (Inl e)
    then have "view (status_turn p f) = view f\<lparr>spec_pushing := None\<rparr>"
      by (simp add: status_turn_def StatusAnnotating patch view_def)
    with spec_failed [OF pushing] show ?thesis by simp
  next
    case (Inr u)
    then have "view (status_turn p f) = view f\<lparr>spec_last_push := sm_now sm, spec_pushing := None\<rparr>"
      by (simp add: status_turn_def StatusAnnotating patch view_def)
    with spec_pushed [OF pushing] show ?thesis by simp
  qed
qed

lemma fw_step_spec:
  assumes "fw_step p t f g"
  shows "spec_step (view f) (view g)"
  using assms
proof cases
  case (step_wifi ev)
  then have "view g = view f"
    by (auto simp: wifi_turn_def view_def split: option.splits prod.splits)
  then show ?thesis by (simp add: spec_stutter)
next
  case (step_led_start rmt_ok channel_ok now)
  then have "view g = view f" by (simp add: led_listen_def view_def split: option.splits prod.splits)
  then show ?thesis by (simp add: spec_stutter)
next
  case (step_led_frame l as_millis now)
  then have "view g = view f" by (simp add: led_frame_def view_def)
  then show ?thesis by (simp add: spec_stutter)
next
  case (step_led_signal l pattern as_millis now)
  then have "view g = view f" by (simp add: led_receive_def view_def)
  then show ?thesis by (simp add: spec_stutter)
next
  case (step_world w)
  then have "view g = view f" by (simp add: world_turn_def view_def)
  then show ?thesis by (simp add: spec_stutter)
qed (simp_all only: lease_turn_spec status_turn_spec)

section \<open>What the machine promises\<close>

inductive_cases spec_stepE: "spec_step s t"

lemma flip_same_value: "fst (flip now v c) = fst c \<Longrightarrow> flip now v c = c"
  by (auto simp: flip_def split: if_splits)

lemma spec_step_times:
  assumes "spec_step s t"
  shows "fst (spec_memory t) = fst (spec_memory s) \<Longrightarrow> spec_memory t = spec_memory s"
    and "length (spec_custom t) = length (spec_custom s)"
    and "i < length (spec_custom s) \<Longrightarrow> fst (spec_custom t ! i) = fst (spec_custom s ! i) \<Longrightarrow>
      spec_custom t ! i = spec_custom s ! i"
  using assms by (auto elim!: spec_stepE simp: flip_same_value)

text \<open>The time of the last push moves only to the time of an observation that decided to push, but for
  the start.\<close>

lemma spec_step_push:
  assumes "spec_step s t" "spec_last_push t \<noteq> spec_last_push s"
  shows "\<not> spec_started s \<and> spec_started t \<or> spec_pushing s = Some (spec_last_push t) \<and> spec_pushing t = None"
  using assms by (auto elim!: spec_stepE)

section \<open>Progress\<close>

text \<open>The lease task alone: two of its turns are a renewal as long as the server accepts.\<close>

definition accepts_renewals :: "'w platform \<Rightarrow> 'w fw \<Rightarrow> bool" where
  "accepts_renewals p f \<longleftrightarrow>
     (\<forall>now s. fst (renew_lease p (KubeApi_new (fw_client f)) (fw_identity f) now s) = Inr Renewed)"

definition lease_at :: "nat \<Rightarrow> 'w fw \<Rightarrow> bool" where
  "lease_at k f \<longleftrightarrow> lr_renewal_count (fw_lease f) = of_nat (k div 2) \<and>
     (2 \<le> k \<longrightarrow> lr_healthy (fw_lease f)) \<and>
     (if even k then fw_lease_at f = LeaseWaiting else \<exists>now. fw_lease_at f = LeaseRenewing now)"

lemma lease_turn_progress:
  assumes "lease_at k f" "accepts_renewals p f"
  shows "lease_at (Suc k) (lease_turn p f)"
proof (cases "even k")
  case True
  then show ?thesis
    using assms(1) by (auto simp: lease_at_def lease_turn_def Let_def split: prod.splits)
next
  case False
  with assms(1) obtain now where at_renew: "fw_lease_at f = LeaseRenewing now"
    by (auto simp: lease_at_def)
  obtain s where renew: "renew_lease p (KubeApi_new (fw_client f)) (fw_identity f) now (fw_sys f) = (Inr Renewed, s)"
    using assms(2) unfolding accepts_renewals_def by (metis prod.collapse)
  have "Suc k div 2 = Suc (k div 2)" using False by presburger
  then show ?thesis
    using assms(1) False
    by (simp add: lease_at_def lease_turn_def at_renew renew Let_def add.commute)
qed

lemma other_turn_lease:
  assumes "fw_step p t f g" "t \<noteq> LeaseTask"
  shows "fw_lease g = fw_lease f \<and> fw_lease_at g = fw_lease_at f"
  using assms
  by (auto elim!: fw_step_cases simp: status_turn_def wifi_turn_def led_listen_def led_frame_def led_receive_def
      world_turn_def split: option.splits prod.splits)

lemma fw_step_parties: "fw_step p t f g \<Longrightarrow> fw_client g = fw_client f \<and> fw_identity g = fw_identity f"
  by (auto elim!: fw_step_cases simp: lease_turn_def status_turn_def wifi_turn_def led_listen_def
      led_frame_def led_receive_def world_turn_def split: option.splits prod.splits)

lemma execution_progress:
  assumes "execution p f0 ts f" "accepts_renewals p f0" "lease_at 0 f0"
  shows "lease_at (count_list ts LeaseTask) f \<and> accepts_renewals p f"
  using assms
proof (induction rule: execution.induct)
  case (exec_step ts f t g)
  then have f: "lease_at (count_list ts LeaseTask) f" "accepts_renewals p f" by auto
  have g: "accepts_renewals p g"
    using f(2) fw_step_parties [OF exec_step.hyps(2)] by (simp add: accepts_renewals_def)
  show ?case
  proof (cases "t = LeaseTask")
    case True
    then have "g = lease_turn p f" using exec_step.hyps(2) by (auto elim: fw_step.cases)
    then show ?thesis using lease_turn_progress [OF f] g True by simp
  next
    case False
    then show ?thesis using other_turn_lease [OF exec_step.hyps(2) False] f g by (simp add: lease_at_def)
  qed
qed simp

section \<open>The sample node\<close>

lemma boot_parties:
  assumes "boot p b link (Some cfg) w = Some f"
  shows "\<exists>port host. parse_u16 (K3S_API_PORT_STR (env p)) = Some port \<and>
    parse_ipv4 (K3S_API_HOST (env p)) = Some host \<and> fw_client f = ApiClient_new host port TLS_BUF TLS_BUF 8192 \<and>
    NodeIdentity_new (push p) (env p) (cfg_ip cfg) = Some (fw_identity f) \<and>
    fw_lease f = LeaseReconciler_new \<and> fw_lease_at f = LeaseWaiting"
proof -
  from assms obtain stack ph s0 where
    "boot_node p b stack (Led_task # interface_tasks (ns_device stack)) ph (Some cfg) s0 = Some f"
    by (rule boot_cases) simp
  then show ?thesis
    by (auto simp: boot_node_def Let_def split: Option.bind_splits prod.splits)
qed

lemma sample_accepts:
  assumes "boot sample_node b link sample_config w = Some f"
  shows "accepts_renewals sample_node f"
proof -
  have "boot sample_node b link (Some (the sample_config)) w = Some f"
    using assms by (simp add: sample_config_def)
  from boot_parties [OF this] obtain port host where
    "parse_u16 (K3S_API_PORT_STR (env sample_node)) = Some port"
    "parse_ipv4 (K3S_API_HOST (env sample_node)) = Some host"
    and client: "fw_client f = ApiClient_new host port TLS_BUF TLS_BUF 8192"
    and identity: "NodeIdentity_new (push sample_node) (env sample_node) (10, 0, 0, 7) = Some (fw_identity f)"
    by (auto simp: sample_config_def)
  moreover have "parse_u16 ''6443'' = Some 6443" "parse_ipv4 ''192.168.1.10'' = Some (192, 168, 1, 10)"
    by code_simp+
  ultimately have "fw_client f = sample_client"
    by (simp add: sample_node_def sample_env_def sample_client_def)
  moreover have "fw_identity f = sample_identity"
    using identity bounded_buffer.NodeIdentity_new_eq [OF sample_buffer, of "env sample_node" "(10, 0, 0, 7)"]
    by (simp add: sample_node_def sample_name sample_identity_def)
  ultimately show ?thesis by (simp add: accepts_renewals_def sample_renews)
qed

section \<open>Renewals over a server that accepts them\<close>

text \<open>As long as the API server accepts the renewals, every two turns of the lease task renew
  the lease once, however the other tasks are scheduled in between, from the boot on; nothing
  another task does can hold it up, and from the first renewal on the LED is told so.\<close>

lemma renewals_progress:
  assumes "boot p b link config w = Some f0" "execution p f0 ts f" "accepts_renewals p f0"
  shows "lr_renewal_count (fw_lease f) = of_nat (count_list ts LeaseTask div 2) \<and>
    (2 \<le> count_list ts LeaseTask \<longrightarrow> lr_healthy (fw_lease f))"
proof -
  obtain cfg where "config = Some cfg" by (rule boot_cases [OF assms(1)])
  with boot_parties [of p b link cfg w f0] assms(1) have "lease_at 0 f0"
    by (auto simp: lease_at_def LeaseReconciler_new_def)
  from execution_progress [OF assms(2,3) this] show ?thesis by (simp add: lease_at_def)
qed

lemma renewals_progress_witness:
  "\<exists>f0. boot sample_node sample_board sample_link sample_config (4200, []) = Some f0 \<and>
     lr_renewal_count (fw_lease (lease_turn sample_node (status_turn sample_node (lease_turn sample_node f0)))) = 1"
proof -
  obtain f0 where boot: "boot sample_node sample_board sample_link sample_config (4200, []) = Some f0"
    by (rule sample_boots)
  have "execution sample_node f0 ((([] @ [LeaseTask]) @ [StatusTask]) @ [LeaseTask])
      (lease_turn sample_node (status_turn sample_node (lease_turn sample_node f0)))"
    by (rule exec_step [OF exec_step [OF exec_step [OF exec_boot step_lease] step_status] step_lease])
  from renewals_progress [OF boot this sample_accepts [OF boot]] boot show ?thesis by auto
qed

end
