(* ===== verification/Exchange.thy ===== *)
theory Exchange
  imports Client
begin

text \<open>
  \<open>ApiClient::request\<close> of \<open>src/net/client.rs\<close> from await to await. The phase says at which await
  a request stands and keeps the local variables that live across it; \<open>exchange_piece\<close> takes what
  the await gives and runs to the next one, or to the result.

  The code reads the response into \<open>resp_buf\<close>, a field of the client that outlives the request; here
  its filled part is a local of the phases \<open>AtRead\<close> and \<open>AtClose\<close>. The difference cannot be seen: a request
  writes the buffer from index 0 and looks only at what it has written itself, and it borrows the client
  mutably behind the mutex until the caller is done with the response, so nobody else
  touches the buffer in between.
\<close>

datatype exchange_phase =
    AtConnect
  | AtOpen "u8 list"
  | AtHead bytes
  | AtBody bytes
  | AtFlush
  | AtRead bytes
  | AtClose bytes

text \<open>The top of the read loop, with the filled part of the response buffer.\<close>

definition read_more :: "nat \<Rightarrow> bytes \<Rightarrow> exchange_phase + (ApiError + Response)" where
  "read_more cap buf =
     (if length buf = cap then Inr (Inl (Truncated (of_nat (length buf)))) else Inl (AtRead buf))"

fun exchange_piece ::
    "'w platform \<Rightarrow> ApiClient \<Rightarrow> request_line \<Rightarrow> exchange_phase \<Rightarrow> 'w
      \<Rightarrow> (exchange_phase + (ApiError + Response)) \<times> 'w" where
  "exchange_piece p c l AtConnect w =
     (case tcp_connect p request_socket (api_ip c) (api_port c) w of
        (Some e, w) \<Rightarrow> (Inr (Inl (ApiError_from_ConnectError e)), w)
      | (None, w) \<Rightarrow> let (seed, w) = chacha_seed p 8 w in (Inl (AtOpen seed), w))"
| "exchange_piece p c l (AtOpen seed) w =
     (case tls_open p (tls_read_len c) (tls_write_len c) (K3S_API_HOST (env p)) seed w of
        (Some e, w) \<Rightarrow> (Inr (Inl (ApiError_from_TlsError e)), w)
      | (None, w) \<Rightarrow>
          let body_len = (case rq_body l of Some b \<Rightarrow> length b | None \<Rightarrow> 0) in
          (case write_fmt (push p) 2048 []
                  (head_pieces (env p) (rq_method l) (rq_content_type l) (rq_path l) body_len) of
             None \<Rightarrow> Inr (Inl Fmt)
           | Some head \<Rightarrow> Inl (AtHead head), w))"
| "exchange_piece p c l (AtHead head) w =
     (case tls_write_all p head w of
        (Some e, w) \<Rightarrow> (Inr (Inl (ApiError_from_TlsError e)), w)
      | (None, w) \<Rightarrow> (Inl (case rq_body l of Some b \<Rightarrow> AtBody b | None \<Rightarrow> AtFlush), w))"
| "exchange_piece p c l (AtBody b) w =
     (case tls_write_all p b w of
        (Some e, w) \<Rightarrow> (Inr (Inl (ApiError_from_TlsError e)), w)
      | (None, w) \<Rightarrow> (Inl AtFlush, w))"
| "exchange_piece p c l AtFlush w =
     (case tls_flush p w of
        (Some e, w) \<Rightarrow> (Inr (Inl (ApiError_from_TlsError e)), w)
      | (None, w) \<Rightarrow> (read_more (resp_buf_len c) [], w))"
| "exchange_piece p c l (AtRead buf) w =
     (case tls_read p (resp_buf_len c - length buf) w of
        (Inr bs, w) \<Rightarrow>
          let got = take (resp_buf_len c - length buf) bs
          in (if got = [] then Inl (AtClose buf) else read_more (resp_buf_len c) (buf @ got), w)
      | (Inl ConnectionClosed, w) \<Rightarrow> (Inl (AtClose buf), w)
      | (Inl (TlsOther e), w) \<Rightarrow> (Inr (Inl (Tls (TlsOther e))), w))"
| "exchange_piece p c l (AtClose buf) w = (Inr (parse_response buf), tls_close p w)"

section \<open>Every request ends\<close>

text \<open>How many awaits are left at most, by the room in the response buffer.\<close>

fun awaits_left :: "nat \<Rightarrow> exchange_phase \<Rightarrow> nat" where
  "awaits_left cap AtConnect = cap + 7"
| "awaits_left cap (AtOpen seed) = cap + 6"
| "awaits_left cap (AtHead head) = cap + 5"
| "awaits_left cap (AtBody b) = cap + 4"
| "awaits_left cap AtFlush = cap + 3"
| "awaits_left cap (AtRead buf) = (cap - length buf) + 2"
| "awaits_left cap (AtClose buf) = 1"

lemma awaits_left_pos: "0 < awaits_left cap ph"
  by (cases ph) simp_all

lemma read_more_Inl: "read_more cap buf = Inl ph \<Longrightarrow> ph = AtRead buf"
  by (simp add: read_more_def split: if_splits)

text \<open>
  What a phase keeps: the head that was formatted, the body of the request, and less in the
  buffer than its length.
\<close>

definition head_of :: "'w platform \<Rightarrow> request_line \<Rightarrow> bytes option" where
  "head_of p l = write_fmt (push p) 2048 [] (head_pieces (env p) (rq_method l) (rq_content_type l)
     (rq_path l) (case rq_body l of Some b \<Rightarrow> length b | None \<Rightarrow> 0))"

fun phase_ok :: "'w platform \<Rightarrow> ApiClient \<Rightarrow> request_line \<Rightarrow> exchange_phase \<Rightarrow> bool" where
  "phase_ok p c l AtConnect = True"
| "phase_ok p c l (AtOpen seed) = (length seed = 32)"
| "phase_ok p c l (AtHead head) = (head_of p l = Some head)"
| "phase_ok p c l (AtBody b) = (head_of p l \<noteq> None \<and> rq_body l = Some b)"
| "phase_ok p c l AtFlush = (head_of p l \<noteq> None)"
| "phase_ok p c l (AtRead buf) = (head_of p l \<noteq> None \<and> length buf < resp_buf_len c)"
| "phase_ok p c l (AtClose buf) = (head_of p l \<noteq> None \<and> length buf < resp_buf_len c)"

lemma read_more_ok:
  "read_more (resp_buf_len c) buf = Inl ph \<Longrightarrow> length buf \<le> resp_buf_len c \<Longrightarrow> head_of p l \<noteq> None \<Longrightarrow>
    phase_ok p c l ph"
  by (auto simp: read_more_def split: if_splits)

lemma exchange_piece_ok:
  assumes "phase_ok p c l ph" "exchange_piece p c l ph w = (Inl ph', w')"
  shows "phase_ok p c l ph'"
proof (cases ph)
  case AtConnect
  then show ?thesis
    using assms(2) length_chacha_seed [of p 8]
    by (auto split: prod.splits option.splits) (metis fst_conv)
next
  case (AtRead buf)
  have "length (buf @ take (resp_buf_len c - length buf) bs) \<le> resp_buf_len c" for bs
    using assms(1) by (auto simp: AtRead min_def)
  from read_more_ok [OF _ this, of _ _ p l] assms show ?thesis
    by (auto simp: AtRead Let_def split: prod.splits sum.splits TlsError.splits if_splits)
qed (use assms read_more_ok [of c "[]" ph' p l] in
    \<open>auto simp: head_of_def Let_def split: prod.splits option.splits\<close>)

text \<open>A piece that does not end the request brings it nearer to its end, whatever the await gives.\<close>

lemma exchange_piece_nearer:
  assumes "exchange_piece p c l ph w = (Inl ph', w')"
  shows "awaits_left (resp_buf_len c) ph' < awaits_left (resp_buf_len c) ph"
proof (cases ph)
  case (AtRead buf)
  obtain r u where read: "tls_read p (resp_buf_len c - length buf) w = (r, u)" by fastforce
  show ?thesis
  proof (cases "\<exists>bs. r = Inr bs \<and> take (resp_buf_len c - length buf) bs \<noteq> []")
    case True
    then obtain bs where r: "r = Inr bs" and got: "take (resp_buf_len c - length buf) bs \<noteq> []"
      by blast
    then have "0 < length (take (resp_buf_len c - length buf) bs)" "length buf < resp_buf_len c"
      by auto
    moreover have "ph' = AtRead (buf @ take (resp_buf_len c - length buf) bs)"
      using assms got by (auto simp: AtRead read r Let_def dest!: read_more_Inl)
    ultimately show ?thesis by (simp only: AtRead awaits_left.simps length_append)
  next
    case False
    then have "ph' = AtClose buf"
      using assms by (auto simp: AtRead read Let_def split: sum.splits TlsError.splits if_splits)
    then show ?thesis by (simp add: AtRead)
  qed
qed (use assms in \<open>auto simp: Let_def split: prod.splits option.splits dest!: read_more_Inl\<close>)

section \<open>Uninterrupted, the pieces are the request\<close>

function exchange_all ::
    "'w platform \<Rightarrow> ApiClient \<Rightarrow> request_line \<Rightarrow> exchange_phase \<Rightarrow> 'w
      \<Rightarrow> (ApiError + Response) \<times> 'w" where
  "exchange_all p c l ph w =
     (case exchange_piece p c l ph w of
        (Inl ph, w) \<Rightarrow> exchange_all p c l ph w
      | (Inr r, w) \<Rightarrow> (r, w))"
  by pat_completeness auto
termination
  by (relation "measure (\<lambda>(p, c, l, ph, w). awaits_left (resp_buf_len c) ph)")
    (auto dest!: sym [of _ "exchange_piece _ _ _ _ _"] exchange_piece_nearer)

declare exchange_all.simps [simp del]

lemma exchange_all_Inl: "exchange_piece p c l ph w = (Inl ph', w') \<Longrightarrow>
    exchange_all p c l ph w = exchange_all p c l ph' w'"
  by (simp add: exchange_all.simps)

lemma exchange_all_Inr: "exchange_piece p c l ph w = (Inr r, w') \<Longrightarrow> exchange_all p c l ph w = (r, w')"
  by (simp add: exchange_all.simps)

lemma exchange_all_read:
  "(case read_more (resp_buf_len c) buf of Inl ph \<Rightarrow> exchange_all p c l ph w | Inr r \<Rightarrow> (r, w)) =
   (case read_response p (resp_buf_len c) buf w of
      (Inl e, w) \<Rightarrow> (Inl e, w)
    | (Inr buf, w) \<Rightarrow> (parse_response buf, tls_close p w))"
proof (induction p "resp_buf_len c" buf w rule: read_response.induct)
  case (1 p buf w)
  show ?case
  proof (cases "length buf = resp_buf_len c")
    case True
    then show ?thesis by (subst read_response.simps) (simp add: read_more_def)
  next
    case False
    obtain r u where read: "tls_read p (resp_buf_len c - length buf) w = (r, u)" by fastforce
    have close: "exchange_all p c l (AtClose buf) u = (parse_response buf, tls_close p u)"
      by (simp add: exchange_all.simps)
    show ?thesis
    proof (cases "\<exists>bs. r = Inr bs \<and> take (resp_buf_len c - length buf) bs \<noteq> []")
      case True
      then obtain bs where r: "r = Inr bs" and got: "take (resp_buf_len c - length buf) bs \<noteq> []"
        by blast
      note next_piece = "1" [OF False read [unfolded r, symmetric] refl refl got]
      have "exchange_all p c l (AtRead buf) w
        = (case read_more (resp_buf_len c) (buf @ take (resp_buf_len c - length buf) bs) of
             Inl ph \<Rightarrow> exchange_all p c l ph u | Inr r \<Rightarrow> (r, u))"
        using got by (subst exchange_all.simps) (simp add: read r Let_def split: sum.splits)
      with False got next_piece show ?thesis
        by (subst read_response.simps) (simp add: read_more_def [of _ buf] read r Let_def)
    next
      case False
      with \<open>length buf \<noteq> resp_buf_len c\<close> show ?thesis
        by (subst read_response.simps)
          (auto simp: read_more_def [of _ buf] exchange_all.simps [of p c l "AtRead buf"] read close Let_def
            split: sum.splits TlsError.splits)
    qed
  qed
qed

lemma exchange_all_eq:
  "exchange_all p c l AtConnect w =
    exchange p c (rq_method l) (rq_content_type l) (rq_path l) (rq_body l) w"
  using exchange_all_read [where c = c and buf = "[]" and p = p and l = l]
  by (simp add: exchange_def exchange_all.simps Let_def split: prod.splits option.splits sum.splits)

section \<open>Interrupted, they are the request over another network\<close>

text \<open>
  Between two awaits of a request the world may change in any way. A result that comes about so is
  one that some network gives at once: \<open>q\<close> differs from \<open>p\<close> in TCP and TLS only.
\<close>

definition other_network :: "'w platform \<Rightarrow> 'w platform \<Rightarrow> bool" where
  "other_network p q \<longleftrightarrow>
     (\<exists>co op wr fl rd cl. q = p\<lparr>tcp_connect := co, tls_open := op, tls_write_all := wr,
        tls_flush := fl, tls_read := rd, tls_close := cl\<rparr>)"

lemma other_network_same: "other_network p q \<Longrightarrow> env q = env p \<and> push q = push p"
  by (auto simp: other_network_def)

lemma other_network_refl: "other_network p p"
proof -
  have "p = p\<lparr>tcp_connect := tcp_connect p, tls_open := tls_open p, tls_write_all := tls_write_all p,
        tls_flush := tls_flush p, tls_read := tls_read p, tls_close := tls_close p\<rparr>" by simp
  then show ?thesis unfolding other_network_def by blast
qed

text \<open>A network that leads to the world \<open>w'\<close> with given answers.\<close>

definition answering ::
    "'w platform \<Rightarrow> ConnectError option \<Rightarrow> TlsError option \<Rightarrow> TlsError option \<Rightarrow> TlsError option
      \<Rightarrow> (nat \<Rightarrow> TlsError + bytes) \<Rightarrow> 'w \<Rightarrow> 'w platform" where
  "answering p ce oe we fe rd w' =
     p\<lparr>tcp_connect := \<lambda>sock ip port w. (ce, w'), tls_open := \<lambda>rd wr host seed w. (oe, w'),
       tls_write_all := \<lambda>bs w. (we, w'), tls_flush := \<lambda>w. (fe, w'), tls_read := \<lambda>n w. (rd n, w'),
       tls_close := \<lambda>w. w'\<rparr>"

lemma answering_other: "other_network p (answering p ce oe we fe rd w')"
  unfolding other_network_def answering_def by blast

lemma answering_sel [simp]:
  "env (answering p ce oe we fe rd w') = env p" "push (answering p ce oe we fe rd w') = push p"
  "tcp_connect (answering p ce oe we fe rd w') = (\<lambda>sock ip port w. (ce, w'))"
  "tls_open (answering p ce oe we fe rd w') = (\<lambda>rd wr host seed w. (oe, w'))"
  "tls_write_all (answering p ce oe we fe rd w') = (\<lambda>bs w. (we, w'))"
  "tls_flush (answering p ce oe we fe rd w') = (\<lambda>w. (fe, w'))"
  "tls_read (answering p ce oe we fe rd w') = (\<lambda>n w. (rd n, w'))"
  "tls_close (answering p ce oe we fe rd w') = (\<lambda>w. w')"
  by (simp_all add: answering_def)

text \<open>The same network has to read the response: in one portion, and then nothing.\<close>

definition gives :: "'w platform \<Rightarrow> ApiClient \<Rightarrow> request_line \<Rightarrow> (ApiError + Response) \<Rightarrow> 'w \<Rightarrow> bool" where
  "gives p c l r w' \<longleftrightarrow> (\<exists>q. other_network p q \<and>
     (\<forall>w. exchange q c (rq_method l) (rq_content_type l) (rq_path l) (rq_body l) w = (r, w')))"

lemma givesI:
  "(\<And>w. exchange (answering p ce oe we fe rd w') c (rq_method l) (rq_content_type l) (rq_path l)
     (rq_body l) w = (r, w')) \<Longrightarrow> gives p c l r w'"
  unfolding gives_def
  by (rule exI [where x = "answering p ce oe we fe rd w'"]) (simp add: answering_other)

lemma exchange_answering:
  "exchange (answering p ce oe we fe rd w') c (rq_method l) (rq_content_type l) (rq_path l) (rq_body l) w =
    (case ce of Some e \<Rightarrow> (Inl (ApiError_from_ConnectError e), w') | None \<Rightarrow>
     case oe of Some e \<Rightarrow> (Inl (ApiError_from_TlsError e), w') | None \<Rightarrow>
     case head_of p l of None \<Rightarrow> (Inl Fmt, w') | Some head \<Rightarrow>
     case we of Some e \<Rightarrow> (Inl (ApiError_from_TlsError e), w') | None \<Rightarrow>
     case fe of Some e \<Rightarrow> (Inl (ApiError_from_TlsError e), w') | None \<Rightarrow>
     case read_response (answering p ce oe we fe rd w') (resp_buf_len c) [] w' of
       (Inl e, w) \<Rightarrow> (Inl e, w) | (Inr buf, w) \<Rightarrow> (parse_response buf, w'))"
proof -
  obtain seed u where seed: "chacha_seed (answering p ce oe we fe rd w') 8 w' = (seed, u)" by fastforce
  obtain x v where read: "read_response (answering p ce oe we fe rd w') (resp_buf_len c) [] w' = (x, v)"
    by fastforce
  show ?thesis
  proof (cases "ce = None \<and> oe = None \<and> head_of p l \<noteq> None")
    case False
    then show ?thesis
      by (cases ce; cases oe) (simp_all add: exchange_def seed head_of_def Let_def)
  next
    case True
    then obtain head where head: "head_of p l = Some head" by blast
    show ?thesis
      using True head [unfolded head_of_def] read
      by (cases "rq_body l"; cases we; cases fe; cases x)
        (simp_all add: exchange_def seed head Let_def)
  qed
qed

lemma read_in_one_portion:
  assumes "length buf < cap"
  shows "read_response (answering p ce oe we fe (\<lambda>n. Inr (if n = cap then buf else [])) w') cap [] w'
    = (Inr buf, w')"
proof -
  let ?q = "answering p ce oe we fe (\<lambda>n. Inr (if n = cap then buf else [])) w'"
  have last: "read_response ?q cap b w' = (Inr b, w')" if "length b < cap" "b \<noteq> []" for b
  proof -
    have "cap - length b \<noteq> cap" using that by (cases b) auto
    with that show ?thesis by (subst read_response.simps) simp
  qed
  show ?thesis
  proof (cases "buf = []")
    case True
    with assms show ?thesis by (subst read_response.simps) simp
  next
    case False
    then show ?thesis using assms last [OF assms False] by (subst read_response.simps) simp
  qed
qed

lemma piece_result_given:
  assumes ok: "phase_ok p c l ph" and piece: "exchange_piece p c l ph w = (Inr r, w')"
  shows "gives p c l r w'"
proof (cases ph)
  case AtConnect
  with piece obtain e where "r = Inl (ApiError_from_ConnectError e)"
    by (auto simp: Let_def split: prod.splits option.splits)
  then show ?thesis by (intro givesI [where ce = "Some e"]) (simp add: exchange_answering)
next
  case (AtOpen seed)
  with piece consider e where "r = Inl (ApiError_from_TlsError e)" | "r = Inl Fmt" "head_of p l = None"
    by (auto simp: Let_def head_of_def split: prod.splits option.splits)
  then show ?thesis
  proof cases
    case (1 e)
    then show ?thesis by (intro givesI [where ce = None and oe = "Some e"]) (simp add: exchange_answering)
  next
    case 2
    then show ?thesis by (intro givesI [where ce = None and oe = None]) (simp add: exchange_answering)
  qed
next
  case (AtHead head)
  with ok piece obtain e where "r = Inl (ApiError_from_TlsError e)" "head_of p l = Some head"
    by (auto simp: Let_def split: prod.splits option.splits)
  then show ?thesis
    by (intro givesI [where ce = None and oe = None and we = "Some e"]) (simp add: exchange_answering)
next
  case (AtBody b)
  with ok piece obtain e head where "r = Inl (ApiError_from_TlsError e)" "head_of p l = Some head"
    by (auto simp: Let_def split: prod.splits option.splits)
  then show ?thesis
    by (intro givesI [where ce = None and oe = None and we = "Some e"]) (simp add: exchange_answering)
next
  case AtFlush
  with ok piece obtain head where head: "head_of p l = Some head"
    and "(\<exists>e. r = Inl (ApiError_from_TlsError e)) \<or> resp_buf_len c = 0 \<and> r = Inl (Truncated 0)"
    by (auto simp: Let_def read_more_def split: prod.splits option.splits if_splits)
  then show ?thesis
  proof (elim disjE exE conjE)
    fix e
    assume "r = Inl (ApiError_from_TlsError e)"
    with head show ?thesis
      by (intro givesI [where ce = None and oe = None and we = None and fe = "Some e"])
        (simp add: exchange_answering)
  next
    assume "resp_buf_len c = 0" "r = Inl (Truncated 0)"
    with head show ?thesis
      by (intro givesI [where ce = None and oe = None and we = None and fe = None])
        (simp add: exchange_answering, subst read_response.simps, simp)
  qed
next
  case (AtRead buf)
  with ok obtain head where head: "head_of p l = Some head" and room: "0 < resp_buf_len c" by auto
  obtain x u where read: "tls_read p (resp_buf_len c - length buf) w = (x, u)" by fastforce
  have full: "r = Inl (Truncated (of_nat (resp_buf_len c)))" if "read_more (resp_buf_len c) b = Inr r" for b
    using that by (auto simp: read_more_def split: if_splits)
  have "(\<exists>t. r = Inl (Tls (TlsOther t))) \<or> r = Inl (Truncated (of_nat (resp_buf_len c)))"
  proof (cases x)
    case (Inl e)
    with piece show ?thesis by (cases e) (auto simp: AtRead read)
  next
    case (Inr bs)
    with piece have "read_more (resp_buf_len c) (buf @ take (resp_buf_len c - length buf) bs) = Inr r"
      by (simp add: AtRead read Let_def split: if_splits)
    with full show ?thesis by blast
  qed
  then show ?thesis
  proof (elim disjE exE)
    fix t
    assume "r = Inl (Tls (TlsOther t))"
    moreover have "read_response (answering p None None None None (\<lambda>n. Inl (TlsOther t)) w') (resp_buf_len c) [] w'
        = (Inl (Tls (TlsOther t)), w')"
      using room by (subst read_response.simps) simp
    ultimately show ?thesis
      using head by (intro givesI [where ce = None and oe = None and we = None and fe = None
            and rd = "\<lambda>n. Inl (TlsOther t)"]) (simp add: exchange_answering)
  next
    let ?rd = "\<lambda>n. Inr (replicate n CHR ''0'')"
    assume r: "r = Inl (Truncated (of_nat (resp_buf_len c)))"
    have "read_response (answering p None None None None ?rd w') (resp_buf_len c) [] w'
        = (Inl (Truncated (of_nat (resp_buf_len c))), w')"
      using room by (subst read_response.simps) (simp, subst read_response.simps, simp)
    with head r show ?thesis
      by (intro givesI [where ce = None and oe = None and we = None and fe = None and rd = ?rd])
        (simp add: exchange_answering)
  qed
next
  case (AtClose buf)
  with ok piece obtain head where head: "head_of p l = Some head" "length buf < resp_buf_len c"
    and r: "r = parse_response buf" by auto
  then show ?thesis
    by (intro givesI [where ce = None and oe = None and we = None and fe = None
          and rd = "\<lambda>n. Inr (if n = resp_buf_len c then buf else [])"])
      (simp add: exchange_answering read_in_one_portion)
qed

end
