(* ===== verification/Awaits.thy ===== *)
theory Awaits
  imports Protocol Exchange
begin

text \<open>
  The firmware at the awaits of its requests. In \<open>fw_step\<close> a request is one step; here it is the
  sequence of its pieces, between which every other task and the world go on, and the mutex of
  \<open>SharedClient\<close> says which task has the client. The result of the theory is that this makes no
  difference to what the firmware does: \<open>net_step_coarse\<close> and \<open>coarse_net\<close>.
\<close>

section \<open>A task at a request\<close>

text \<open>
  The request of an operation of \<open>KubeApi\<close>, if its body can be built: what it hands to the client
  once it has locked it.
\<close>

definition renewal_request :: "'w platform \<Rightarrow> NodeIdentity \<Rightarrow> u64 \<Rightarrow> request_line option" where
  "renewal_request p identity renew_unix =
     map_option (\<lambda>body. line_of ''PATCH'' ''application/merge-patch+json''
         (as_str (ni_lease_path identity)) (Some body))
       (LeaseBody_write_json (push p) (env p) renew_unix [])"

definition creation_request :: "'w platform \<Rightarrow> u64 \<Rightarrow> request_line option" where
  "creation_request p renew_unix =
     map_option (\<lambda>body. line_of ''POST'' ''application/json''
         ''/apis/coordination.k8s.io/v1/namespaces/kube-node-lease/leases'' (Some body))
       (LeaseBody_write_json (push p) (env p) renew_unix [])"

definition status_patch_request ::
    "'w platform \<Rightarrow> NodeIdentity \<Rightarrow> NodeCondTracker \<Rightarrow> CustomCondEntry list \<Rightarrow> u64
      \<Rightarrow> request_line option" where
  "status_patch_request p identity tracker custom heartbeat_unix =
     map_option (\<lambda>body. line_of ''PATCH'' ''application/strategic-merge-patch+json''
         (as_str (ni_status_path identity)) (Some body))
       (NodeStatusPatch_write_json (push p)
         \<lparr>nsp_tracker = tracker, nsp_custom = custom, nsp_heartbeat_unix = heartbeat_unix\<rparr> [])"

definition annotation_request :: "'w platform \<Rightarrow> NodeIdentity \<Rightarrow> usize \<Rightarrow> request_line option" where
  "annotation_request p identity free_bytes =
     map_option (\<lambda>body. line_of ''PATCH'' ''application/merge-patch+json''
         (as_str (ni_node_path identity)) (Some body))
       (HeapAnnotationPatch_write_json (push p) free_bytes [])"

lemmas request_defs =
  renewal_request_def creation_request_def status_patch_request_def annotation_request_def

text \<open>What a task asks for where it stands.\<close>

fun lease_request :: "'w platform \<Rightarrow> NodeIdentity \<Rightarrow> lease_phase \<Rightarrow> request_line option" where
  "lease_request p identity LeaseWaiting = None"
| "lease_request p identity (LeaseRenewing now) = renewal_request p identity now"
| "lease_request p identity (LeaseCreating now) = creation_request p now"

fun status_request ::
    "'w platform \<Rightarrow> NodeIdentity \<Rightarrow> StatusReconciler \<Rightarrow> status_phase \<Rightarrow> request_line option" where
  "status_request p identity st StatusStarting = None"
| "status_request p identity st StatusWaiting = None"
| "status_request p identity st (StatusPatching sm ok_line) =
     status_patch_request p identity (sr_tracker st)
       (custom_entries (sm_evaluated sm) (ls_custom (sr_state st))) (sm_now sm)"
| "status_request p identity st (StatusAnnotating sm) = annotation_request p identity (sm_free sm)"

text \<open>How it goes on with the answer.\<close>

fun lease_answer ::
    "'w platform \<Rightarrow> lease_phase \<Rightarrow> ApiError + Response \<Rightarrow> LeaseReconciler \<Rightarrow> 'w sys
      \<Rightarrow> lease_phase \<times> LeaseReconciler \<times> 'w sys" where
  "lease_answer p LeaseWaiting r st s = (LeaseWaiting, st, s)"
| "lease_answer p (LeaseRenewing now) r st s = lease_renewed p (renewal_outcome r) st s"
| "lease_answer p (LeaseCreating now) r st s = lease_created (creation_outcome r) st s"

fun status_answer ::
    "status_phase \<Rightarrow> ApiError + Response \<Rightarrow> StatusReconciler \<Rightarrow> 'w sys
      \<Rightarrow> status_phase \<times> StatusReconciler \<times> 'w sys" where
  "status_answer StatusStarting r st s = (StatusStarting, st, s)"
| "status_answer StatusWaiting r st s = (StatusWaiting, st, s)"
| "status_answer (StatusPatching sm ok_line) r st s = status_patched sm ok_line (status_outcome r) st s"
| "status_answer (StatusAnnotating sm) r st s = status_annotated sm (annotation_outcome r) st s"

text \<open>A turn of a task that stands at a request is the exchange and the answer.\<close>

definition exchanged :: "request_line \<Rightarrow> 'w \<Rightarrow> 'w sys \<Rightarrow> 'w sys" where
  "exchanged l w s = s\<lparr>world := w, sent := sent s @ [l]\<rparr>"

lemma lease_resume_request:
  assumes "lease_request p identity ph = Some l"
  shows "lease_resume p c identity (ph, st, s) =
    (let (r, w) = exchange p c (rq_method l) (rq_content_type l) (rq_path l) (rq_body l) (world s)
     in lease_answer p ph r st (exchanged l w s))"
  using assms
  by (cases ph) (auto simp del: lease_renewed_def lease_created_def renewal_outcome_def
      creation_outcome_def simp: request_defs renew_lease_def create_lease_def verb_defs request_def line_of_def
      exchanged_def split: prod.splits)

lemma status_resume_request:
  assumes "status_request p identity st ph = Some l"
  shows "status_resume p c identity (ph, st, s) =
    (let (r, w) = exchange p c (rq_method l) (rq_content_type l) (rq_path l) (rq_body l) (world s)
     in status_answer ph r st (exchanged l w s))"
  using assms
  by (cases ph) (auto simp del: status_patched_def status_annotated_def status_outcome_def
      annotation_outcome_def simp: request_defs patch_node_status_def patch_heap_annotation_def verb_defs
      request_def line_of_def exchanged_def split: prod.splits)

section \<open>The steps\<close>

fun asked :: "'w platform \<Rightarrow> task \<Rightarrow> 'w fw \<Rightarrow> request_line option" where
  "asked p LeaseTask f = lease_request p (fw_identity f) (fw_lease_at f)"
| "asked p StatusTask f = status_request p (fw_identity f) (fw_status f) (fw_status_at f)"
| "asked p _ f = None"

fun answered :: "'w platform \<Rightarrow> task \<Rightarrow> request_line \<Rightarrow> ApiError + Response \<Rightarrow> 'w \<Rightarrow> 'w fw \<Rightarrow> 'w fw" where
  "answered p LeaseTask l r w f =
     (let (ph, st, s) = lease_answer p (fw_lease_at f) r (fw_lease f) (exchanged l w (fw_sys f))
      in f\<lparr>fw_lease_at := ph, fw_lease := st, fw_sys := s\<rparr>)"
| "answered p StatusTask l r w f =
     (let (ph, st, s) = status_answer (fw_status_at f) r (fw_status f) (exchanged l w (fw_sys f))
      in f\<lparr>fw_status_at := ph, fw_status := st, fw_sys := s\<rparr>)"
| "answered p _ l r w f = f"

text \<open>
  The state: the firmware, and which task has locked the client, with the phase of its request.
  A task that does not stand at a request takes its turn; one that does waits for the mutex, runs
  its request piece by piece, and goes on with the answer.
\<close>

type_synonym 'w node = "'w fw \<times> (task \<times> exchange_phase) option"

inductive net_step :: "'w platform \<Rightarrow> task \<Rightarrow> 'w node \<Rightarrow> 'w node \<Rightarrow> bool" for p where
  net_turn: "asked p t f = None \<Longrightarrow> fw_step p t f g \<Longrightarrow> net_step p t (f, h) (g, h)"
| net_lock: "asked p t f = Some l \<Longrightarrow> net_step p t (f, None) (f, Some (t, AtConnect))"
| net_piece:
    "asked p t f = Some l \<Longrightarrow>
     exchange_piece p (fw_client f) l ph (world (fw_sys f)) = (Inl ph', w) \<Longrightarrow>
     net_step p t (f, Some (t, ph)) (world_turn w f, Some (t, ph'))"
| net_answer:
    "asked p t f = Some l \<Longrightarrow>
     exchange_piece p (fw_client f) l ph (world (fw_sys f)) = (Inr r, w) \<Longrightarrow>
     net_step p t (f, Some (t, ph)) (answered p t l r w f, None)"

inductive net_execution :: "'w platform \<Rightarrow> 'w node \<Rightarrow> task list \<Rightarrow> 'w node \<Rightarrow> bool" for p n0 where
  net_boot: "net_execution p n0 [] n0"
| net_more: "net_execution p n0 ts n \<Longrightarrow> net_step p t n m \<Longrightarrow> net_execution p n0 (ts @ [t]) m"

lemma net_execution_induct [consumes 2, case_names step]:
  assumes "net_execution p n0 ts n" "P n0" "\<And>t n m. P n \<Longrightarrow> net_step p t n m \<Longrightarrow> P m"
  shows "P n"
  using assms(1,2) by (induction rule: net_execution.induct) (auto intro: assms(3))

section \<open>Every fine step is a coarse one\<close>

text \<open>The task that has the client stands at its request.\<close>

definition net_ok :: "'w platform \<Rightarrow> 'w node \<Rightarrow> bool" where
  "net_ok p n \<longleftrightarrow> (case n of (f, None) \<Rightarrow> True
     | (f, Some (t, ph)) \<Rightarrow> \<exists>l. asked p t f = Some l \<and> phase_ok p (fw_client f) l ph)"

lemma world_turn_sel [simp]:
  "fw_client (world_turn w f) = fw_client f" "fw_identity (world_turn w f) = fw_identity f"
  "fw_lease_at (world_turn w f) = fw_lease_at f" "fw_lease (world_turn w f) = fw_lease f"
  "fw_status_at (world_turn w f) = fw_status_at f" "fw_status (world_turn w f) = fw_status f"
  "world (fw_sys (world_turn w f)) = w"
  by (simp_all add: world_turn_def)

lemma asked_world [simp]: "asked p t (world_turn w f) = asked p t f"
  by (cases t) simp_all

lemma other_task_asks:
  assumes "fw_step p t f g" "t' \<noteq> t"
  shows "asked p t' g = asked p t' f \<and> fw_client g = fw_client f"
  using assms
  by (cases t') (auto elim!: fw_step_cases simp: lease_turn_def status_turn_def wifi_turn_def
      led_listen_def led_frame_def led_receive_def split: option.splits prod.splits)

lemma net_step_ok:
  assumes "net_step p t n m" "net_ok p n"
  shows "net_ok p m"
  using assms
proof cases
  case (net_turn f g h)
  show ?thesis
  proof (cases h)
    case (Some a)
    then obtain t' ph l where a: "h = Some (t', ph)" "asked p t' f = Some l" "phase_ok p (fw_client f) l ph"
      using assms(2) net_turn(1) by (cases a) (auto simp: net_ok_def)
    with net_turn(3) have "t' \<noteq> t" by auto
    with other_task_asks [OF net_turn(4)] a show ?thesis by (simp add: net_turn(2) net_ok_def)
  qed (simp add: net_turn(2) net_ok_def)
next
  case (net_piece f l ph ph' w)
  then show ?thesis
    using assms(2) exchange_piece_ok [OF _ net_piece(4)] by (auto simp: net_ok_def)
qed (auto simp: net_ok_def)

text \<open>
  Another network does not change what a task asks for, nor how it goes on: the clock is the
  same.
\<close>

lemma other_network_clock:
  assumes "other_network p q"
  shows "unix_now q = unix_now p"
  using assms by (auto simp: other_network_def unix_now_def now_millis_def fun_eq_iff)

lemma other_network_asked:
  assumes "other_network p q"
  shows "asked q t f = asked p t f"
proof -
  have "lease_request q i ph = lease_request p i ph" for i ph
    using other_network_same [OF assms] by (cases ph) (simp_all add: request_defs)
  moreover have "status_request q i st ph = status_request p i st ph" for i st ph
    using other_network_same [OF assms] by (cases ph) (simp_all add: request_defs)
  ultimately show ?thesis by (cases t) simp_all
qed

lemma other_network_answered:
  assumes "other_network p q"
  shows "answered q t l r w f = answered p t l r w f"
proof -
  have same_env: "env q = env p" using other_network_same [OF assms] by blast
  have "lease_renewed q o' st s = lease_renewed p o' st s" for o' st and s :: "'a sys"
    unfolding lease_renewed_def other_network_clock [OF assms] same_env by (rule refl)
  then have "lease_answer q ph r st s = lease_answer p ph r st s" for ph st and s :: "'a sys"
    by (cases ph) (simp_all del: lease_renewed_def)
  then show ?thesis by (cases t) simp_all
qed

lemma turn_answered:
  assumes "asked q t f = Some l"
    "exchange q (fw_client f) (rq_method l) (rq_content_type l) (rq_path l) (rq_body l) (world (fw_sys f)) = (r, w)"
  shows "fw_step q t f (answered q t l r w f)"
proof (cases t)
  case LeaseTask
  have "lease_request q (fw_identity f) (fw_lease_at f) = Some l" using assms(1) by (simp add: LeaseTask)
  from lease_resume_request [OF this] assms(2)
  have "answered q t l r w f = lease_turn q f" by (simp add: LeaseTask lease_turn_def)
  then show ?thesis by (simp add: LeaseTask step_lease)
next
  case StatusTask
  have "status_request q (fw_identity f) (fw_status f) (fw_status_at f) = Some l"
    using assms(1) by (simp add: StatusTask)
  from status_resume_request [OF this] assms(2)
  have "answered q t l r w f = status_turn q f" by (simp add: StatusTask status_turn_def)
  then show ?thesis by (simp add: StatusTask step_status)
qed (use assms(1) in simp_all)

definition some_fw_step :: "'w platform \<Rightarrow> 'w fw \<Rightarrow> 'w fw \<Rightarrow> bool" where
  "some_fw_step p f g \<longleftrightarrow> (\<exists>q t. other_network p q \<and> fw_step q t f g)"

lemma net_step_coarse:
  assumes "net_step p t n m" "net_ok p n"
  shows "some_fw_step p (fst n) (fst m)"
  using assms
proof cases
  case (net_turn f g h)
  then show ?thesis using other_network_refl by (auto simp: some_fw_step_def)
next
  case (net_lock f l)
  have "f = world_turn (world (fw_sys f)) f" by (simp add: world_turn_def)
  then have "fw_step p Elsewhere f f" using step_world [of p f "world (fw_sys f)"] by simp
  with net_lock show ?thesis using other_network_refl by (auto simp: some_fw_step_def)
next
  case (net_piece f l ph ph' w)
  then have "other_network p p \<and> fw_step p Elsewhere (fst n) (fst m)"
    by (simp add: other_network_refl step_world)
  then show ?thesis unfolding some_fw_step_def by blast
next
  case (net_answer f l ph r w)
  with assms(2) have "phase_ok p (fw_client f) l ph" by (simp add: net_ok_def)
  from piece_result_given [OF this net_answer(4)] obtain q where q: "other_network p q"
    "exchange q (fw_client f) (rq_method l) (rq_content_type l) (rq_path l) (rq_body l)
       (world (fw_sys f)) = (r, w)"
    by (auto simp: gives_def)
  have "asked q t f = Some l" using net_answer(3) by (simp add: other_network_asked [OF q(1)])
  from turn_answered [OF this q(2)] have "fw_step q t f (answered p t l r w f)"
    by (simp add: other_network_answered [OF q(1)])
  with net_answer(1,2) q(1) show ?thesis by (auto simp: some_fw_step_def)
qed

text \<open>
  So an invariant of the coarse steps over all networks holds along every fine execution.
\<close>

lemma net_execution_coarse:
  assumes "net_execution p (f0, None) ts n"
  shows "(some_fw_step p)\<^sup>*\<^sup>* f0 (fst n) \<and> net_ok p n"
  using assms
proof (rule net_execution_induct)
  show "(some_fw_step p)\<^sup>*\<^sup>* f0 (fst (f0, None)) \<and> net_ok p (f0, None)" by (simp add: net_ok_def)
  fix t n m
  assume "(some_fw_step p)\<^sup>*\<^sup>* f0 (fst n) \<and> net_ok p n" "net_step p t n m"
  then show "(some_fw_step p)\<^sup>*\<^sup>* f0 (fst m) \<and> net_ok p m"
    using net_step_coarse net_step_ok by (metis rtranclp.rtrancl_into_rtrancl)
qed

lemma some_fw_steps_induct [consumes 2, case_names step]:
  assumes "(some_fw_step p)\<^sup>*\<^sup>* f0 f" "P f0"
    "\<And>q t f g. other_network p q \<Longrightarrow> P f \<Longrightarrow> fw_step q t f g \<Longrightarrow> P g"
  shows "P f"
  using assms(1,2) by (induction rule: rtranclp_induct) (auto simp: some_fw_step_def intro: assms(3))

lemma net_inv:
  assumes "net_execution p (f0, None) ts (f, h)" "fw_inv f0 f0"
  shows "fw_inv f0 f"
proof -
  have "(some_fw_step p)\<^sup>*\<^sup>* f0 f" using net_execution_coarse [OF assms(1)] by simp
  then show ?thesis using assms(2) by (rule some_fw_steps_induct) (rule fw_step_inv)
qed

lemma net_lines:
  assumes "bounded_buffer (push p)" "net_execution p (f0, None) ts (f, h)" "lines_inv p f0"
  shows "lines_inv p f"
proof -
  have "(some_fw_step p)\<^sup>*\<^sup>* f0 f" using net_execution_coarse [OF assms(2)] by simp
  then show ?thesis using assms(3)
  proof (rule some_fw_steps_induct)
    fix q t f g
    assume q: "other_network p q" and "lines_inv p f" "fw_step q t f g"
    then show "lines_inv p g"
      using fw_step_lines [of q f t g] assms(1) other_network_same [OF q] by (simp add: lines_inv_def)
  qed
qed

text \<open>The conditions that no task observes, and the start of the status task.\<close>

lemma fw_step_fixed:
  assumes "fw_step p t f g"
  shows "ready (sr_tracker (fw_status g)) = ready (sr_tracker (fw_status f)) \<and>
    disk_pressure (sr_tracker (fw_status g)) = disk_pressure (sr_tracker (fw_status f)) \<and>
    pid_pressure (sr_tracker (fw_status g)) = pid_pressure (sr_tracker (fw_status f))"
  using assms
proof cases
  case step_status
  obtain ph st s where piece: "status_resume p (fw_client f) (fw_identity f)
      (fw_status_at f, fw_status f, fw_sys f) = (ph, st, s)" by (metis prod.collapse)
  have "sr_tracker st = (sr_tracker (fw_status f))\<lparr>memory_pressure := memory_pressure (sr_tracker st)\<rparr>"
    using status_resume_statics [OF piece] by blast
  then have "ready (sr_tracker st) = ready (sr_tracker (fw_status f)) \<and>
      disk_pressure (sr_tracker st) = disk_pressure (sr_tracker (fw_status f)) \<and>
      pid_pressure (sr_tracker st) = pid_pressure (sr_tracker (fw_status f))"
    by (metis NodeCondTracker.select_convs NodeCondTracker.surjective NodeCondTracker.update_convs(2))
  then show ?thesis by (simp add: step_status status_turn_def piece)
qed (auto simp: lease_turn_def wifi_turn_def led_listen_def led_frame_def led_receive_def world_turn_def
    split: option.splits prod.splits)

lemma fw_step_start:
  assumes "fw_step p t f g"
  shows "(fw_status_at g = StatusStarting \<longrightarrow>
      sr_last_status_update (fw_status g) = sr_last_status_update (fw_status f)) \<and>
    (fw_status_at f = StatusStarting \<longrightarrow> fw_status_at g \<in> {StatusStarting, StatusWaiting})"
  using assms
proof cases
  case step_status
  show ?thesis
    unfolding step_status
    by (cases "fw_status_at f")
      (auto simp: status_turn_def Let_def split: prod.splits sum.splits if_splits)
qed (auto simp: lease_turn_def wifi_turn_def led_listen_def led_frame_def led_receive_def world_turn_def
    split: option.splits prod.splits)


section \<open>Every coarse step is a fine execution\<close>

lemma net_execution_trans:
  assumes "net_execution p m us k" "net_execution p n ts m"
  shows "net_execution p n (ts @ us) k"
  using assms
proof (induction rule: net_execution.induct)
  case (net_more us k t k')
  from net_execution.net_more [OF net_more.IH [OF net_more.prems] net_more.hyps(2)] show ?case by simp
qed simp

lemma net_execution_1: "net_step p t n m \<Longrightarrow> net_execution p n [t] m"
  using net_more [OF net_boot, of p t n m] by simp

lemma answered_world:
  assumes "asked p t f = Some l'"
  shows "answered p t l r w (world_turn u f) = answered p t l r w f"
proof -
  have same: "exchanged l w (fw_sys (world_turn u f)) = exchanged l w (fw_sys f)"
    by (simp add: exchanged_def world_turn_def)
  have "world_turn u f\<lparr>fw_lease_at := a, fw_lease := b, fw_sys := s\<rparr>
      = f\<lparr>fw_lease_at := a, fw_lease := b, fw_sys := s\<rparr>"
    "world_turn u f\<lparr>fw_status_at := c, fw_status := d, fw_sys := s\<rparr>
      = f\<lparr>fw_status_at := c, fw_status := d, fw_sys := s\<rparr>" for a b c d s
    by (simp_all add: world_turn_def)
  with assms show ?thesis by (cases t) (simp_all add: same)
qed

lemma exchange_all_net:
  assumes "asked p t f = Some l" "exchange_all p (fw_client f) l ph (world (fw_sys f)) = (r, w)"
  shows "\<exists>k \<le> awaits_left (resp_buf_len (fw_client f)) ph.
    net_execution p (f, Some (t, ph)) (replicate k t) (answered p t l r w f, None)"
  using assms
proof (induction "awaits_left (resp_buf_len (fw_client f)) ph" arbitrary: f ph rule: less_induct)
  case less
  obtain x u where piece: "exchange_piece p (fw_client f) l ph (world (fw_sys f)) = (x, u)" by fastforce
  show ?case
  proof (cases x)
    case (Inl ph')
    let ?g = "world_turn u f"
    have step: "net_step p t (f, Some (t, ph)) (?g, Some (t, ph'))"
      using net_piece [OF less.prems(1)] piece Inl by simp
    have "awaits_left (resp_buf_len (fw_client ?g)) ph' < awaits_left (resp_buf_len (fw_client f)) ph"
      using exchange_piece_nearer [OF piece [unfolded Inl]] by simp
    moreover have "asked p t ?g = Some l" using less.prems(1) by simp
    moreover have "exchange_all p (fw_client ?g) l ph' (world (fw_sys ?g)) = (r, w)"
      using less.prems(2) exchange_all_Inl [OF piece [unfolded Inl]] by simp
    ultimately obtain k where k: "k \<le> awaits_left (resp_buf_len (fw_client ?g)) ph'"
      and run: "net_execution p (?g, Some (t, ph')) (replicate k t) (answered p t l r w ?g, None)"
      using less.hyps [of ?g ph'] by blast
    have "Suc k \<le> awaits_left (resp_buf_len (fw_client f)) ph"
      using k exchange_piece_nearer [OF piece [unfolded Inl]] by simp
    moreover from net_execution_trans [OF run net_execution_1 [OF step]]
    have "net_execution p (f, Some (t, ph)) (replicate (Suc k) t) (answered p t l r w ?g, None)" by simp
    moreover have "answered p t l r w ?g = answered p t l r w f"
      by (rule answered_world [OF less.prems(1)])
    ultimately show ?thesis by (intro exI [of _ "Suc k"] conjI) (simp_all only:)
  next
    case (Inr r')
    then have "exchange_all p (fw_client f) l ph (world (fw_sys f)) = (r', u)"
      using exchange_all_Inr piece by simp
    then have "net_step p t (f, Some (t, ph)) (answered p t l r w f, None)"
      using net_answer [OF less.prems(1)] piece Inr less.prems(2) by simp
    from net_execution_1 [OF this] have
      "net_execution p (f, Some (t, ph)) (replicate 1 t) (answered p t l r w f, None)" by simp
    moreover have "1 \<le> awaits_left (resp_buf_len (fw_client f)) ph"
      using awaits_left_pos [of "resp_buf_len (fw_client f)" ph] by simp
    ultimately show ?thesis by blast
  qed
qed

lemma fw_step_answered:
  assumes "fw_step p t f g" "asked p t f = Some l"
  obtains r w where "g = answered p t l r w f"
    "exchange_all p (fw_client f) l AtConnect (world (fw_sys f)) = (r, w)"
proof -
  obtain r w where rw: "exchange p (fw_client f) (rq_method l) (rq_content_type l) (rq_path l)
      (rq_body l) (world (fw_sys f)) = (r, w)" by fastforce
  have "g = answered p t l r w f"
  proof (cases t)
    case LeaseTask
    have "lease_request p (fw_identity f) (fw_lease_at f) = Some l" using assms(2) by (simp add: LeaseTask)
    from lease_resume_request [OF this] rw assms(1) show ?thesis
      by (auto simp: LeaseTask lease_turn_def elim: fw_step.cases)
  next
    case StatusTask
    have "status_request p (fw_identity f) (fw_status f) (fw_status_at f) = Some l"
      using assms(2) by (simp add: StatusTask)
    from status_resume_request [OF this] rw assms(1) show ?thesis
      by (auto simp: StatusTask status_turn_def elim: fw_step.cases)
  qed (use assms(2) in simp_all)
  with rw that show thesis by (simp add: exchange_all_eq)
qed

lemma coarse_net:
  assumes "fw_step p t f g"
  shows "\<exists>ts. net_execution p (f, None) ts (g, None) \<and> set ts = {t}"
proof (cases "asked p t f")
  case None
  from net_execution_1 [OF net_turn [OF this assms]] show ?thesis by fastforce
next
  case (Some l)
  obtain r w where g: "g = answered p t l r w f"
    and all: "exchange_all p (fw_client f) l AtConnect (world (fw_sys f)) = (r, w)"
    by (rule fw_step_answered [OF assms Some])
  obtain k where "net_execution p (f, Some (t, AtConnect)) (replicate k t) (g, None)"
    using exchange_all_net [OF Some all] g by blast
  from net_execution_trans [OF this net_execution_1 [OF net_lock [OF Some]]] show ?thesis by fastforce
qed

lemma execution_net:
  "execution p f0 ts f \<Longrightarrow> \<exists>us. net_execution p (f0, None) us (f, None)"
proof (induction rule: execution.induct)
  case exec_boot
  show ?case using net_boot by blast
next
  case (exec_step ts f t g)
  then show ?case using coarse_net net_execution_trans by metis
qed

section \<open>The client is given back\<close>

lemma net_execution_ok: "net_execution p n ts m \<Longrightarrow> net_ok p n \<Longrightarrow> net_ok p m"
  by (erule net_execution_induct) (auto intro: net_step_ok)

lemma holder_keeps:
  assumes "net_execution p (f, Some (t, ph)) ts n" "net_ok p (f, Some (t, ph))"
  shows "(\<exists>us vs g. ts = us @ vs \<and> net_execution p (f, Some (t, ph)) us (g, None)) \<or>
    (\<exists>g ph'. n = (g, Some (t, ph')) \<and> fw_client g = fw_client f \<and>
      count_list ts t + awaits_left (resp_buf_len (fw_client f)) ph'
        \<le> awaits_left (resp_buf_len (fw_client f)) ph)"
  using assms
proof (induction rule: net_execution.induct)
  case (net_more ts n t' m)
  from net_more.IH [OF net_more.prems] show ?case
  proof (elim disjE exE conjE)
    fix us vs g
    assume "ts = us @ vs" "net_execution p (f, Some (t, ph)) us (g, None)"
    then show ?thesis by (metis append.assoc)
  next
    fix g ph'
    assume n: "n = (g, Some (t, ph'))" and client: "fw_client g = fw_client f"
      and left: "count_list ts t + awaits_left (resp_buf_len (fw_client f)) ph'
        \<le> awaits_left (resp_buf_len (fw_client f)) ph"
    have "net_ok p n" using net_execution_ok [OF net_more.hyps(1) net_more.prems] .
    then have asked: "asked p t g \<noteq> None" by (auto simp: n net_ok_def)
    from net_more.hyps(2) [unfolded n] show ?thesis
    proof cases
      case (net_turn g')
      with asked have "t' \<noteq> t" by auto
      with net_turn fw_step_parties [OF net_turn(3)] client left show ?thesis by auto
    next
      case (net_piece l ph'' w)
      then show ?thesis using exchange_piece_nearer [OF net_piece(4)] client left by auto
    next
      case (net_answer l r w)
      then show ?thesis using net_execution.net_more [OF net_more.hyps] by auto
    qed
  qed
qed auto

text \<open>Whoever has the client can go on, and any task can if it waits for nothing.\<close>

lemma net_step_possible:
  assumes "net_ok p (f, h)" "t = LeaseTask \<or> t = StatusTask"
    and "asked p t f = None \<or> h = None \<or> fst (the h) = t"
  shows "\<exists>n. net_step p t (f, h) n"
proof (cases "asked p t f")
  case None
  have "\<exists>g. fw_step p t f g" using assms(2) step_lease step_status by blast
  with None show ?thesis by (blast intro: net_turn)
next
  case (Some l)
  show ?thesis
  proof (cases h)
    case None
    with Some show ?thesis by (blast intro: net_lock)
  next
    case (Some a)
    with assms(3) \<open>asked p t f = Some l\<close> obtain ph where h: "h = Some (t, ph)" by (cases a) auto
    obtain x w where piece: "exchange_piece p (fw_client f) l ph (world (fw_sys f)) = (x, w)" by fastforce
    show ?thesis
    proof (cases x)
      case (Inl ph')
      with piece show ?thesis using net_piece [OF \<open>asked p t f = Some l\<close>] unfolding h by blast
    next
      case (Inr r)
      with piece show ?thesis using net_answer [OF \<open>asked p t f = Some l\<close>] unfolding h by blast
    qed
  qed
qed

section \<open>The sample node\<close>

lemma sample_status_turn: "execution p f0 ([] @ [StatusTask]) (status_turn p f0)"
  by (rule exec_step [OF exec_boot step_status])

lemma sample_lease_turns: "execution p f0 (([] @ [LeaseTask]) @ [LeaseTask]) (lease_turn p (lease_turn p f0))"
  by (rule exec_step [OF exec_step [OF exec_boot step_lease] step_lease])

lemma lease_turns_possible:
  assumes "net_ok p (f, h)" "h = None \<or> fst (the h) = LeaseTask"
  shows "\<exists>g h'. net_execution p (f, h) (replicate k LeaseTask) (g, h') \<and> (h' = None \<or> fst (the h') = LeaseTask)"
proof (induction k)
  case 0
  have "net_execution p (f, h) (replicate 0 LeaseTask) (f, h)" by (simp add: net_boot)
  with assms(2) show ?case by blast
next
  case (Suc k)
  then obtain g h' where g: "net_execution p (f, h) (replicate k LeaseTask) (g, h')"
    "h' = None \<or> fst (the h') = LeaseTask" by blast
  have "net_ok p (g, h')" using net_execution_ok [OF g(1) assms(1)] .
  from net_step_possible [OF this] g(2) obtain n where n: "net_step p LeaseTask (g, h') n" by blast
  obtain g' h'' where n': "n = (g', h'')" by fastforce
  from n [unfolded n'] g(2) have "h'' = None \<or> fst (the h'') = LeaseTask" by cases auto
  with net_more [OF g(1) n] show ?case by (auto simp: n' replicate_append_same)
qed

lemma sample_asks:
  assumes "boot sample_node sample_board sample_link sample_config (4200, []) = Some f0"
  shows "\<exists>ts f l. net_execution sample_node (f0, None) ts (f, None) \<and> asked sample_node LeaseTask f = Some l"
proof -
  have "fw_lease_at f0 = LeaseWaiting"
    using assms boot_parties [of sample_node sample_board sample_link "the sample_config" "(4200, [])" f0]
    by (auto simp: sample_config_def)
  then obtain now where now: "fw_lease_at (lease_turn sample_node f0) = LeaseRenewing now"
    by (cases "unix_now sample_node (wait_secs sample_node interval (fw_sys f0))")
      (simp add: lease_turn_def)
  have "LeaseBody_write_json (push sample_node) (env sample_node) now [] \<noteq> None"
    using bounded_buffer.LeaseBody_write_fits [OF sample_buffer, of "env sample_node"]
    by (simp add: sample_node_def sample_name)
  with now obtain l where "asked sample_node LeaseTask (lease_turn sample_node f0) = Some l"
    by (auto simp: renewal_request_def)
  moreover have "execution sample_node f0 ([] @ [LeaseTask]) (lease_turn sample_node f0)"
    by (rule exec_step [OF exec_boot step_lease])
  ultimately show ?thesis using execution_net by blast
qed

section \<open>Properties\<close>

text \<open>C2. It makes no difference that a request is many awaits long. Whatever the tasks do between the
  awaits of each other's requests, and however the world changes there, the firmware goes
  through states that it reaches with whole requests, over a network that may answer
  differently; and every turn with a whole request is an execution from await to await, in
  which the task locks the client, runs the pieces of the request and gives the client back.\<close>

theorem requests_are_atomic:
  assumes "net_execution p (f0, None) ts (f, h)"
  shows "(some_fw_step p)\<^sup>*\<^sup>* f0 f \<and>
    (fw_step p t f g \<longrightarrow> (\<exists>us. net_execution p (f, None) us (g, None) \<and> set us = {t}))"
  using net_execution_coarse [OF assms] coarse_net by auto

lemma requests_are_atomic_witness:
  "\<exists>f0 us. boot sample_node sample_board sample_link sample_config (4200, []) = Some f0 \<and>
     net_execution sample_node (f0, None) us (lease_turn sample_node f0, None) \<and> set us = {LeaseTask}"
proof -
  obtain f0 where boot: "boot sample_node sample_board sample_link sample_config (4200, []) = Some f0"
    by (rule sample_boots)
  have "net_execution sample_node (f0, None) [] (f0, None)" by (rule net_boot)
  from requests_are_atomic [OF this, of LeaseTask "lease_turn sample_node f0"] boot
  show ?thesis using step_lease by blast
qed

text \<open>C12. Every request ends and gives the client back. In every reachable state in which a task has locked
  the client that task can go on; alone it gives the client back within 8199 of its turns; and however
  the turns of all tasks are mixed and whatever the network delivers to each of them, as soon
  as it has had 8199 turns it has given the client back at some point.\<close>

theorem client_is_released:
  assumes "bounded_buffer (push p)" "boot p b link config w = Some f0"
    and "net_execution p (f0, None) us (f, Some (t, ph))"
  shows "(\<exists>m. net_step p t (f, Some (t, ph)) m) \<and>
    (\<exists>k \<le> 8199. \<exists>g. net_execution p (f, Some (t, ph)) (replicate k t) (g, None)) \<and>
    (\<forall>ts n. net_execution p (f, Some (t, ph)) ts n \<and> 8199 \<le> count_list ts t \<longrightarrow>
      (\<exists>xs ys g. ts = xs @ ys \<and> net_execution p (f, Some (t, ph)) xs (g, None)))"
proof (intro conjI allI impI)
  have ok: "net_ok p (f, Some (t, ph))" using net_execution_coarse [OF assms(3)] by simp
  then obtain l where l: "asked p t f = Some l" by (auto simp: net_ok_def)
  have "fw_client f = fw_client f0"
    using net_inv [OF assms(3) boot_facts(1) [OF assms(1,2)]] by (simp add: fw_inv_def)
  moreover obtain cfg where "config = Some cfg" by (rule boot_cases [OF assms(2)])
  ultimately have cap: "resp_buf_len (fw_client f) = 8192"
    using boot_parties [of p b link cfg w f0] assms(2) by (auto simp: ApiClient_new_def)
  have few: "awaits_left 8192 ph \<le> 8199" by (cases ph) simp_all
  have "t = LeaseTask \<or> t = StatusTask" using l by (cases t) auto
  then show "\<exists>m. net_step p t (f, Some (t, ph)) m" by (rule net_step_possible [OF ok]) simp
  obtain r w where "exchange_all p (fw_client f) l ph (world (fw_sys f)) = (r, w)" by fastforce
  from exchange_all_net [OF l this, unfolded cap] few
  show "\<exists>k \<le> 8199. \<exists>g. net_execution p (f, Some (t, ph)) (replicate k t) (g, None)"
    by (meson le_trans)
  fix ts n
  assume run: "net_execution p (f, Some (t, ph)) ts n \<and> 8199 \<le> count_list ts t"
  have late: "\<not> count_list ts t + awaits_left 8192 ph' \<le> awaits_left 8192 ph" for ph'
    using awaits_left_pos [of 8192 ph'] few run by simp
  from holder_keeps [OF conjunct1 [OF run] ok, unfolded cap]
  show "\<exists>xs ys g. ts = xs @ ys \<and> net_execution p (f, Some (t, ph)) xs (g, None)"
    by (elim disjE exE conjE) (use late in blast)+
qed

lemma client_is_released_witness:
  "\<exists>f k g. asked sample_node LeaseTask f \<noteq> None \<and> k \<le> 8199 \<and>
     net_execution sample_node (f, Some (LeaseTask, AtConnect)) (replicate k LeaseTask) (g, None)"
proof -
  obtain f0 where boot: "boot sample_node sample_board sample_link sample_config (4200, []) = Some f0"
    by (rule sample_boots)
  obtain ts f l where f: "net_execution sample_node (f0, None) ts (f, None)" "asked sample_node LeaseTask f = Some l"
    using sample_asks [OF boot] by blast
  note locked = net_more [OF f(1) net_lock [OF f(2)]]
  from client_is_released [OF sample_buffer boot locked] f(2) show ?thesis by blast
qed



text \<open>C3. Every request the firmware ever makes, from its boot on and in whatever order the tasks
  interleave, has no body or one that is a JSON document, and a request to the path of the
  status always carries a status that says the node is ready.\<close>

theorem requests_well_formed:
  assumes "bounded_buffer (push p)" "boot p b link config w = Some f0" "net_execution p (f0, None) ts (f, h)"
    and "json_plain (NODE_NAME (env p))"
  shows "list_all (\<lambda>l. (rq_body l = None \<or> (\<exists>j. rq_body l = Some (json_render j))) \<and>
      (rq_content_type l = ''application/strategic-merge-patch+json'' \<longrightarrow>
        (\<exists>ns. rq_body l = Some (status_text ns) \<and> cs_value (ready (nsp_tracker ns)))))
    (sent (fw_sys f))"
proof -
  have "list_all (firmware_line (env p) (fw_identity f)) (sent (fw_sys f))"
    using net_lines [OF assms(1,3) boot_facts(2) [OF assms(1,2)]] by (simp add: lines_inv_def)
  then show ?thesis
  proof (rule list.pred_mono_strong, intro conjI impI)
    fix l
    assume line: "firmware_line (env p) (fw_identity f) l"
    show "rq_body l = None \<or> (\<exists>j. rq_body l = Some (json_render j))"
      by (rule firmware_line_body [OF line assms(4)])
    assume "rq_content_type l = ''application/strategic-merge-patch+json''"
    from firmware_line_strategic [OF line this]
    show "\<exists>ns. rq_body l = Some (status_text ns) \<and> cs_value (ready (nsp_tracker ns))" by fastforce
  qed
qed

lemma requests_well_formed_witness:
  "\<exists>f0. boot sample_node sample_board sample_link sample_config (4200, []) = Some f0 \<and>
     list_all (\<lambda>l. rq_body l = None \<or> (\<exists>j. rq_body l = Some (json_render j)))
       (sent (fw_sys (lease_turn sample_node (lease_turn sample_node f0))))"
proof -
  obtain f0 where boot: "boot sample_node sample_board sample_link sample_config (4200, []) = Some f0"
    by (rule sample_boots)
  obtain us where reach: "net_execution sample_node (f0, None) us
      (lease_turn sample_node (lease_turn sample_node f0), None)"
    using execution_net [OF sample_lease_turns] by blast
  have "json_plain (NODE_NAME (env sample_node))"
    by (simp add: sample_node_def sample_name json_plain_char_def)
  from requests_well_formed [OF sample_buffer boot reach this] boot show ?thesis
    unfolding list_all_iff by blast
qed

text \<open>C4. In every state the firmware can reach, in whatever order the tasks take their turns, also between
  the awaits of a request, and whatever the API server answers, the node is ready since its boot and has neither disk nor PID
  pressure, the clock is as the boot anchored it, and without a connection task, on Ethernet, the Wi-Fi statics are as they
  were initialised, so that a wired node reports no reconnect and no change of access point.\<close>

theorem node_stays_ready:
  assumes "bounded_buffer (push p)" "boot p b link config w = Some f0" "net_execution p (f0, None) ts (f, h)"
  shows "ready (sr_tracker (fw_status f)) = ready (sr_tracker (fw_status f0)) \<and>
    cs_value (ready (sr_tracker (fw_status f))) \<and>
    \<not> cs_value (disk_pressure (sr_tracker (fw_status f))) \<and>
    \<not> cs_value (pid_pressure (sr_tracker (fw_status f))) \<and>
    clock (fw_sys f) = clock (fw_sys f0) \<and> (Connection_task \<notin> set (fw_tasks f) \<longrightarrow> wifi (fw_sys f) = wifi_init)"
  using net_inv [OF assms(3) boot_facts(1) [OF assms(1,2)]] boot_facts(4-7) [OF assms(1,2)]
  by (simp add: fw_inv_def fixed_conditions_def)

lemma node_stays_ready_witness:
  "\<exists>f0. boot sample_node sample_board sample_link sample_config (4200, []) = Some f0 \<and>
     cs_value (ready (sr_tracker (fw_status (status_turn sample_node f0))))"
proof -
  obtain f0 where boot: "boot sample_node sample_board sample_link sample_config (4200, []) = Some f0"
    by (rule sample_boots)
  obtain us where "net_execution sample_node (f0, None) us (status_turn sample_node f0, None)"
    using execution_net [OF sample_status_turn] by blast
  from node_stays_ready [OF sample_buffer boot this] boot show ?thesis by blast
qed

text \<open>C8. Transition times in the running firmware, for all nine conditions: no turn of any task changes
  Ready, DiskPressure or PIDPressure at all, value or time, none moves the time of MemoryPressure
  or of a custom condition whose value it leaves as it was, and the time of the last push moves
  only when the status task starts or when a push that was under way ends, then to the time of the observation it reports.\<close>

theorem times_move_with_values:
  assumes "net_execution p (f0, None) ts (f, h)" "net_step p t (f, h) (g, h')"
  shows "ready (sr_tracker (fw_status g)) = ready (sr_tracker (fw_status f)) \<and>
    disk_pressure (sr_tracker (fw_status g)) = disk_pressure (sr_tracker (fw_status f)) \<and>
    pid_pressure (sr_tracker (fw_status g)) = pid_pressure (sr_tracker (fw_status f)) \<and>
    (fst (memory_view (sr_tracker (fw_status g))) = fst (memory_view (sr_tracker (fw_status f))) \<longrightarrow>
      memory_view (sr_tracker (fw_status g)) = memory_view (sr_tracker (fw_status f))) \<and>
    (\<forall>i < 5. fst (custom_view (ls_custom (sr_state (fw_status g))) ! i)
        = fst (custom_view (ls_custom (sr_state (fw_status f))) ! i) \<longrightarrow>
      custom_view (ls_custom (sr_state (fw_status g))) ! i
        = custom_view (ls_custom (sr_state (fw_status f))) ! i) \<and>
    (sr_last_status_update (fw_status g) \<noteq> sr_last_status_update (fw_status f) \<longrightarrow>
      fw_status_at f = StatusStarting \<and> fw_status_at g = StatusWaiting \<or>
      pushing (fw_status_at f) = Some (sr_last_status_update (fw_status g)) \<and>
      fw_status_at g = StatusWaiting)"
proof -
  obtain q t where step: "fw_step q t f g"
    using net_step_coarse [OF assms(2)] net_execution_coarse [OF assms(1)] by (auto simp: some_fw_step_def)
  note spec = fw_step_spec [OF step]
  have "pushing ph = None \<longleftrightarrow> ph = StatusWaiting \<or> ph = StatusStarting" for ph by (cases ph) simp_all
  moreover have "length (spec_custom (view f)) = 5" by (simp add: view_def custom_view_def)
  moreover have "fw_status_at g = StatusStarting \<Longrightarrow> sr_last_status_update (fw_status g) = sr_last_status_update (fw_status f)"
    and "fw_status_at f = StatusStarting \<Longrightarrow> fw_status_at g \<in> {StatusStarting, StatusWaiting}"
    using fw_step_start [OF step] by blast+
  ultimately show ?thesis
    using spec_step_times [OF spec] spec_step_push [OF spec] fw_step_fixed [OF step]
    by (auto simp: view_def)
qed

lemma times_move_with_values_witness:
  "\<exists>f0. boot sample_node sample_board sample_link sample_config (4200, []) = Some f0 \<and>
     (fst (memory_view (sr_tracker (fw_status (status_turn sample_node f0))))
         = fst (memory_view (sr_tracker (fw_status f0))) \<longrightarrow>
       memory_view (sr_tracker (fw_status (status_turn sample_node f0))) = memory_view (sr_tracker (fw_status f0)))"
proof -
  obtain f0 where boot: "boot sample_node sample_board sample_link sample_config (4200, []) = Some f0"
    by (rule sample_boots)
  have "asked sample_node StatusTask f0 = None" using boot_facts(8) [OF sample_buffer boot] by simp
  from times_move_with_values [OF net_boot net_turn [OF this step_status]] boot show ?thesis by blast
qed

text \<open>C30. Once booted, no custom condition but Vibes is ever Unknown: in every reachable state the statuses
  tracked for Caffeinated, Existential, Peckish and Haunted are True or False, and every status patch
  that was sent is the JSON object of exactly the five entries that the evaluators give for some
  inputs, in which the statuses of these four are True or False. (Vibes is evaluated to Unknown for a heap that is
  neither scarce nor abundant.)\<close>

theorem statuses_never_unknown:
  assumes "bounded_buffer (push p)" "boot p b link config w = Some f0" "net_execution p (f0, None) ts (f, h)"
  shows "CondUnknown \<notin> set (tl (tracked (ls_custom (sr_state (fw_status f))))) \<and>
    list_all (\<lambda>l. rq_content_type l = ''application/strategic-merge-patch+json'' \<longrightarrow>
      (\<exists>t inputs cu hb. let entries = custom_entries (evaluate inputs) cu in
        rq_body l = Some (json_render (status_json
          \<lparr>nsp_tracker = t, nsp_custom = entries, nsp_heartbeat_unix = hb\<rparr>)) \<and>
        list_all entry_plain entries \<and>
        map ce_name entries = [''Vibes'', ''Caffeinated'', ''Existential'', ''Peckish'', ''Haunted''] \<and>
        CondUnknown \<notin> set (tl (map (cc_status \<circ> ce_current) entries))))
    (sent (fw_sys f))"
proof
  note inv = net_lines [OF assms(1,3) boot_facts(2) [OF assms(1,2)]]
  then show "CondUnknown \<notin> set (tl (tracked (ls_custom (sr_state (fw_status f)))))"
    by (simp add: lines_inv_def)
  have "list_all (firmware_line (env p) (fw_identity f)) (sent (fw_sys f))"
    using inv by (simp add: lines_inv_def)
  then show "list_all (\<lambda>l. rq_content_type l = ''application/strategic-merge-patch+json'' \<longrightarrow>
      (\<exists>t inputs cu hb. let entries = custom_entries (evaluate inputs) cu in
        rq_body l = Some (json_render (status_json
          \<lparr>nsp_tracker = t, nsp_custom = entries, nsp_heartbeat_unix = hb\<rparr>)) \<and>
        list_all entry_plain entries \<and>
        map ce_name entries = [''Vibes'', ''Caffeinated'', ''Existential'', ''Peckish'', ''Haunted''] \<and>
        CondUnknown \<notin> set (tl (map (cc_status \<circ> ce_current) entries))))
    (sent (fw_sys f))"
  proof (rule list.pred_mono_strong, intro impI)
    fix l
    assume "firmware_line (env p) (fw_identity f) l"
      "rq_content_type l = ''application/strategic-merge-patch+json''"
    from firmware_line_strategic [OF this] obtain t inputs cu hb where body: "rq_body l = Some (status_text
      \<lparr>nsp_tracker = t, nsp_custom = custom_entries (evaluate inputs) cu, nsp_heartbeat_unix = hb\<rparr>)" by blast
    have "map ce_name (custom_entries (evaluate inputs) cu)
        = [''Vibes'', ''Caffeinated'', ''Existential'', ''Peckish'', ''Haunted'']"
      "map (cc_status \<circ> ce_current) (custom_entries (evaluate inputs) cu) = statuses (evaluate inputs)"
      by (simp_all add: custom_entries_def statuses_def)
    then show "\<exists>t inputs cu hb. let entries = custom_entries (evaluate inputs) cu in
        rq_body l = Some (json_render (status_json
          \<lparr>nsp_tracker = t, nsp_custom = entries, nsp_heartbeat_unix = hb\<rparr>)) \<and>
        list_all entry_plain entries \<and>
        map ce_name entries = [''Vibes'', ''Caffeinated'', ''Existential'', ''Peckish'', ''Haunted''] \<and>
        CondUnknown \<notin> set (tl (map (cc_status \<circ> ce_current) entries))"
      using body statuses_known [of inputs] custom_entries_plain [of inputs cu]
      by (intro exI [of _ t] exI [of _ inputs] exI [of _ cu] exI [of _ hb])
        (simp add: Let_def status_text_json)
  qed
qed

lemma statuses_never_unknown_witness:
  "\<exists>f0. boot sample_node sample_board sample_link sample_config (4200, []) = Some f0 \<and>
     CondUnknown \<notin> set (tl (tracked (ls_custom (sr_state (fw_status (status_turn sample_node f0))))))"
proof -
  obtain f0 where boot: "boot sample_node sample_board sample_link sample_config (4200, []) = Some f0"
    by (rule sample_boots)
  obtain us where "net_execution sample_node (f0, None) us (status_turn sample_node f0, None)"
    using execution_net [OF sample_status_turn] by blast
  from statuses_never_unknown [OF sample_buffer boot this] boot show ?thesis by blast
qed

end
