(* ===== verification/Progress.thy ===== *)
theory Progress
  imports Awaits
begin

text \<open>
  Executions that count the renewals the server has accepted, and two results about them. What the
  firmware shows, the counter and the green of the LED, is exactly what was accepted. And the lease
  task gets on, under every schedule and whatever the server answers: its turns are
  charged to what they bring about, a renewal that is accepted or a warning in the log. A round is
  one turn behind the timer, one for the lock of the client and at most 8199 in the renewal, and if
  the lease has vanished 8200 more in its creation: 16401 together.
\<close>

section \<open>Renewals that were accepted\<close>

text \<open>
  The turn with which the task that stands at a renewal gets the answer 200 from the last await of
  its request. Nothing of the code that goes on with the answer is mentioned.
\<close>

definition renewal_accepted :: "'w platform \<Rightarrow> task \<Rightarrow> 'w node \<Rightarrow> bool" where
  "renewal_accepted p t n \<longleftrightarrow> t = LeaseTask \<and>
     (\<exists>f now l ph resp w. n = (f, Some (LeaseTask, ph)) \<and> fw_lease_at f = LeaseRenewing now \<and>
        renewal_request p (fw_identity f) now = Some l \<and>
        exchange_piece p (fw_client f) l ph (world (fw_sys f)) = (Inr (Inr resp), w) \<and>
        rs_status resp = 200)"

inductive net_history :: "'w platform \<Rightarrow> 'w node \<Rightarrow> task list \<Rightarrow> nat \<Rightarrow> 'w node \<Rightarrow> bool" for p n0 where
  history_start: "net_history p n0 [] 0 n0"
| history_more:
    "net_history p n0 ts k n \<Longrightarrow> net_step p t n m \<Longrightarrow>
     net_history p n0 (ts @ [t]) (if renewal_accepted p t n then Suc k else k) m"

text \<open>Every execution has such a history, and a history is an execution.\<close>

lemma net_history_execution: "net_history p n0 ts k n \<Longrightarrow> net_execution p n0 ts n"
  by (induction rule: net_history.induct) (auto intro: net_boot net_more)

lemma net_execution_history: "net_execution p n0 ts n \<Longrightarrow> \<exists>k. net_history p n0 ts k n"
  by (induction rule: net_execution.induct) (blast intro: history_start history_more)+

text \<open>A piece of the lease task that stands elsewhere than at the end of a renewal accepts nothing.\<close>

lemma renewal_accepted_other [simp]: "t \<noteq> LeaseTask \<Longrightarrow> \<not> renewal_accepted p t n"
  by (simp add: renewal_accepted_def)

lemma renewal_accepted_free [simp]: "\<not> renewal_accepted p t (f, None)"
  by (simp add: renewal_accepted_def)

lemma renewal_accepted_idle: "asked p LeaseTask f = None \<Longrightarrow> \<not> renewal_accepted p t (f, h)"
  by (auto simp: renewal_accepted_def)

lemma renewal_accepted_piece:
  "asked p LeaseTask f = Some l \<Longrightarrow>
    exchange_piece p (fw_client f) l ph (world (fw_sys f)) = (Inl ph', w) \<Longrightarrow>
    \<not> renewal_accepted p t (f, Some (LeaseTask, ph))"
  by (auto simp: renewal_accepted_def)

lemma renewal_accepted_answer:
  assumes "asked p LeaseTask f = Some l"
    "exchange_piece p (fw_client f) l ph (world (fw_sys f)) = (Inr r, w)"
  shows "renewal_accepted p LeaseTask (f, Some (LeaseTask, ph)) \<longleftrightarrow>
    (\<exists>now. fw_lease_at f = LeaseRenewing now) \<and> renewal_outcome r = Inr Renewed"
  using assms by (auto simp: renewal_accepted_def split: sum.splits if_splits)

section \<open>Warnings of the lease task\<close>

definition lease_warning :: "log_line \<Rightarrow> bool" where
  "lease_warning line \<longleftrightarrow> fst line = Warn \<and> prefix ''lease'' (snd line)"

definition warnings :: "log_line list \<Rightarrow> nat" where
  "warnings ls = length (filter lease_warning ls)"

lemma warnings_simps [simp]:
  "warnings [] = 0" "warnings (xs @ ys) = warnings xs + warnings ys"
  "warnings [(Info, m)] = 0"
  by (simp_all add: warnings_def lease_warning_def)

text \<open>Every turn only adds to the log.\<close>

lemma led_log [simp]: "logged (led_set pat s) = logged s"
  by (simp add: led_set_def)

lemma wait_log [simp]: "logged (wait_secs p n s) = logged s"
  by (simp add: wait_secs_def)

lemma unix_now_log: "unix_now p s = (n, t) \<Longrightarrow> logged t = logged s"
  by (auto dest: unix_now_frame)

lemma fw_step_logs:
  assumes "fw_step p t f g"
  shows "prefix (logged (fw_sys f)) (logged (fw_sys g))"
  using assms
proof cases
  case step_lease
  show ?thesis
    unfolding step_lease
    by (cases "fw_lease_at f")
      (auto simp: lease_turn_def info_def warn_def Let_def
        split: prod.splits sum.splits LeaseRenewal.splits dest!: api_same_statics(1,2) unix_now_log)
next
  case step_status
  note wait = status_sample_facts(1) [unfolded adds_def] StatusReconciler_new_facts(3) [unfolded adds_def]
  show ?thesis
    unfolding step_status
    by (cases "fw_status_at f")
      (auto simp: status_turn_def info_def warn_def Let_def
        split: prod.splits sum.splits dest!: api_same_statics(3,4) wait)
qed (auto simp: wifi_turn_def led_listen_def led_frame_def led_receive_def world_turn_def log_lines_def
    split: option.splits prod.splits)

section \<open>What a turn is charged to\<close>

text \<open>
  What the lease task may still use up before its request is over, and what its round has been lent
  until it ends in a renewal or a warning: a creation stands behind a warning already. The stretch
  of turns that is looked at may begin within such a creation, hence the 8200 that belong to no event of its own.
\<close>

definition held :: "(task \<times> exchange_phase) option \<Rightarrow> exchange_phase option" where
  "held h = (case h of Some (LeaseTask, x) \<Rightarrow> Some x | _ \<Rightarrow> None)"

fun left :: "lease_phase \<Rightarrow> exchange_phase option \<Rightarrow> nat" where
  "left LeaseWaiting x = 0"
| "left ph None = 8200"
| "left ph (Some x) = awaits_left 8192 x"

fun lent :: "lease_phase \<Rightarrow> nat" where
  "lent (LeaseRenewing now) = 8201"
| "lent ph = 0"

definition charged :: "nat \<Rightarrow> nat \<Rightarrow> lease_phase \<Rightarrow> exchange_phase option \<Rightarrow> bool" where
  "charged turns events ph x \<longleftrightarrow> turns + left ph x \<le> 16401 * events + lent ph + 8200"

lemma left_bound: "left ph x \<le> 8200"
proof -
  have "awaits_left 8192 y \<le> 8200" for y by (cases y) simp_all
  then show ?thesis by (cases "(ph, x)" rule: left.cases) simp_all
qed

lemma charged_more: "charged k n ph x \<Longrightarrow> n \<le> m \<Longrightarrow> charged k m ph x"
  by (simp add: charged_def)

lemma charged_start: "charged k n LeaseWaiting x \<Longrightarrow> charged (Suc k) n (LeaseRenewing now) y"
  using left_bound [of "LeaseRenewing now" y] by (simp add: charged_def)

lemma charged_lock: "charged k n ph None \<Longrightarrow> ph \<noteq> LeaseWaiting \<Longrightarrow> charged (Suc k) n ph (Some AtConnect)"
  by (cases ph) (simp_all add: charged_def)

lemma charged_piece:
  "charged k n ph (Some x) \<Longrightarrow> ph \<noteq> LeaseWaiting \<Longrightarrow> awaits_left 8192 y < awaits_left 8192 x \<Longrightarrow>
    charged (Suc k) n ph (Some y)"
  by (cases ph) (simp_all add: charged_def)

text \<open>A request ends in an event or, behind the creation of a lease, goes back to the timer.\<close>

lemma left_pos: "ph \<noteq> LeaseWaiting \<Longrightarrow> 0 < left ph x"
  using awaits_left_pos [of 8192] by (cases "(ph, x)" rule: left.cases) auto

lemma charged_event: "charged k n ph x \<Longrightarrow> ph \<noteq> LeaseWaiting \<Longrightarrow> charged (Suc k) (Suc n) LeaseWaiting y"
  using left_pos [of ph x] by (cases ph) (auto simp: charged_def)

lemma charged_vanished:
  "charged k n (LeaseRenewing now) x \<Longrightarrow> charged (Suc k) (Suc n) (LeaseCreating now') y"
  using left_pos [of "LeaseRenewing now" x] left_bound [of "LeaseCreating now'" y] by (auto simp: charged_def)

lemma charged_created: "charged k n (LeaseCreating now) x \<Longrightarrow> charged (Suc k) n LeaseWaiting y"
  using left_pos [of "LeaseCreating now" x] by (auto simp: charged_def)

section \<open>Every turn is charged\<close>

text \<open>What a run of the firmware logs and counts, from \<open>f0\<close> to \<open>f\<close> with \<open>k\<close> accepted renewals.\<close>

definition events :: "'w fw \<Rightarrow> nat \<Rightarrow> 'w fw \<Rightarrow> nat \<Rightarrow> bool" where
  "events f0 k f n \<longleftrightarrow> (\<exists>new. logged (fw_sys f) = logged (fw_sys f0) @ new \<and>
     lr_renewal_count (fw_lease f) = lr_renewal_count (fw_lease f0) + of_nat k \<and> n = k + warnings new)"

lemma events_start: "events f 0 f 0"
  unfolding events_def by (intro exI [of _ "[]"]) simp

lemma events_quiet:
  assumes "events f0 k f n" "lr_renewal_count (fw_lease g) = lr_renewal_count (fw_lease f)"
    "prefix (logged (fw_sys f)) (logged (fw_sys g))"
  shows "\<exists>m \<ge> n. events f0 k g m"
proof -
  obtain new where "logged (fw_sys f) = logged (fw_sys f0) @ new" "n = k + warnings new"
    "lr_renewal_count (fw_lease f) = lr_renewal_count (fw_lease f0) + of_nat k"
    using assms(1) by (auto simp: events_def)
  moreover obtain more where "logged (fw_sys g) = logged (fw_sys f) @ more"
    using assms(3) by (auto simp: prefix_def)
  ultimately show ?thesis
    using assms(2) unfolding events_def
    by (intro exI [of _ "k + warnings (new @ more)"] conjI exI [of _ "new @ more"]) simp_all
qed

lemma events_renewed:
  assumes "events f0 k f n" "lr_renewal_count (fw_lease g) = lr_renewal_count (fw_lease f) + 1"
    "logged (fw_sys g) = logged (fw_sys f) @ [(Info, l)]"
  shows "events f0 (Suc k) g (Suc n)"
proof -
  obtain new where "logged (fw_sys f) = logged (fw_sys f0) @ new" "n = k + warnings new"
    "lr_renewal_count (fw_lease f) = lr_renewal_count (fw_lease f0) + of_nat k"
    using assms(1) by (auto simp: events_def)
  then show ?thesis
    using assms(2,3) unfolding events_def
    by (intro exI [of _ "new @ [(Info, l)]"]) (simp add: ac_simps)
qed

lemma events_warned:
  assumes "events f0 k f n" "lr_renewal_count (fw_lease g) = lr_renewal_count (fw_lease f)"
    "logged (fw_sys g) = logged (fw_sys f) @ [l]" "lease_warning l"
  shows "events f0 k g (Suc n)"
proof -
  obtain new where "logged (fw_sys f) = logged (fw_sys f0) @ new" "n = k + warnings new"
    "lr_renewal_count (fw_lease f) = lr_renewal_count (fw_lease f0) + of_nat k"
    using assms(1) by (auto simp: events_def)
  then show ?thesis
    using assms(2-4) unfolding events_def
    by (intro exI [of _ "new @ [l]"]) (simp add: warnings_def)
qed

text \<open>How the lease task goes on with the outcome of a renewal: it counts the accepted ones only.\<close>

lemma lease_renewed_accepted:
  assumes "lease_renewed p (Inr Renewed) st s = (ph, st', s')"
  shows "ph = LeaseWaiting \<and> st' = \<lparr>lr_healthy = True, lr_renewal_count = lr_renewal_count st + 1\<rparr> \<and>
    RENEWAL_COUNT s' = lr_renewal_count st + 1 \<and> (\<exists>m. logged s' = logged s @ [(Info, m)])"
  using assms by (cases st) (auto simp: info_def led_set_def Let_def split: if_splits)

lemma lease_renewed_other:
  assumes "lease_renewed p r st s = (ph, st', s')" "r \<noteq> Inr Renewed"
  shows "(ph = LeaseWaiting \<or> (\<exists>now. ph = LeaseCreating now)) \<and> st' = st \<and> same_statics s s' \<and>
    (\<exists>l. lease_warning l \<and> logged s' = logged s @ [l])"
  using assms
  by (auto simp: warn_def lease_warning_def Let_def same_statics_def
      split: prod.splits sum.splits LeaseRenewal.splits dest!: unix_now_frame)

lemma lease_created_events:
  assumes "lease_created r st s = (ph, st', s')"
  shows "ph = LeaseWaiting \<and> st' = st \<and> same_statics s s' \<and>
    (logged s' = logged s \<or> (\<exists>l. lease_warning l \<and> logged s' = logged s @ [l]))"
  using assms by (auto simp: warn_def lease_warning_def same_statics_def split: sum.splits)

text \<open>
  A turn of the lease task behind its request, whether that was made or its body could not be built;
  \<open>acc\<close> says whether it gets an accepted renewal.
\<close>

definition resumes :: "'w platform \<Rightarrow> bool \<Rightarrow> 'w fw \<Rightarrow> 'w fw \<Rightarrow> bool" where
  "resumes p acc f g \<longleftrightarrow> (case fw_lease_at f of
       LeaseWaiting \<Rightarrow> \<not> acc \<and> (\<exists>now. fw_lease_at g = LeaseRenewing now) \<and> fw_lease g = fw_lease f \<and>
         same_statics (fw_sys f) (fw_sys g) \<and> logged (fw_sys g) = logged (fw_sys f)
     | LeaseRenewing now \<Rightarrow> \<exists>r s. lease_renewed p r (fw_lease f) s = (fw_lease_at g, fw_lease g, fw_sys g) \<and>
         same_statics (fw_sys f) s \<and> logged s = logged (fw_sys f) \<and> acc = (r = Inr Renewed)
     | LeaseCreating now \<Rightarrow> \<exists>r s. lease_created r (fw_lease f) s = (fw_lease_at g, fw_lease g, fw_sys g) \<and>
         same_statics (fw_sys f) s \<and> logged s = logged (fw_sys f) \<and> \<not> acc)"

text \<open>What every such turn does to the counters, and to the log.\<close>

lemma resumes_cases:
  assumes "resumes p acc f g"
  obtains (accepted) m where acc "\<exists>now. fw_lease_at f = LeaseRenewing now" "fw_lease_at g = LeaseWaiting"
      "fw_lease g = \<lparr>lr_healthy = True, lr_renewal_count = lr_renewal_count (fw_lease f) + 1\<rparr>"
      "RENEWAL_COUNT (fw_sys g) = lr_renewal_count (fw_lease f) + 1"
      "logged (fw_sys g) = logged (fw_sys f) @ [(Info, m)]"
  | (warned) l where "\<not> acc" "fw_lease g = fw_lease f" "RENEWAL_COUNT (fw_sys g) = RENEWAL_COUNT (fw_sys f)"
      "lease_warning l" "logged (fw_sys g) = logged (fw_sys f) @ [l]"
      "fw_lease_at f \<noteq> LeaseWaiting"
      "fw_lease_at g = LeaseWaiting \<or> (\<exists>now now'. fw_lease_at f = LeaseRenewing now \<and> fw_lease_at g = LeaseCreating now')"
  | (quiet) "\<not> acc" "fw_lease g = fw_lease f" "RENEWAL_COUNT (fw_sys g) = RENEWAL_COUNT (fw_sys f)"
      "logged (fw_sys g) = logged (fw_sys f)"
      "(fw_lease_at f = LeaseWaiting \<and> (\<exists>now. fw_lease_at g = LeaseRenewing now)) \<or>
       ((\<exists>now. fw_lease_at f = LeaseCreating now) \<and> fw_lease_at g = LeaseWaiting)"
proof (cases "fw_lease_at f")
  case LeaseWaiting
  with assms quiet show thesis by (auto simp: resumes_def same_statics_def)
next
  case (LeaseRenewing now)
  then obtain r s where after: "lease_renewed p r (fw_lease f) s = (fw_lease_at g, fw_lease g, fw_sys g)"
    and s: "same_statics (fw_sys f) s" "logged s = logged (fw_sys f)" and acc: "acc = (r = Inr Renewed)"
    using assms by (auto simp: resumes_def simp del: lease_renewed_def)
  show thesis
  proof (cases "r = Inr Renewed")
    case True
    from lease_renewed_accepted [OF after [unfolded True]] show thesis
      using accepted True s acc LeaseRenewing by auto
  next
    case False
    from lease_renewed_other [OF after False] show thesis
      using warned False s acc LeaseRenewing by (auto simp: same_statics_def)
  qed
next
  case (LeaseCreating now)
  then obtain r s where after: "lease_created r (fw_lease f) s = (fw_lease_at g, fw_lease g, fw_sys g)"
    and s: "same_statics (fw_sys f) s" "logged s = logged (fw_sys f)" and "\<not> acc"
    using assms by (auto simp: resumes_def simp del: lease_created_def)
  then show thesis
    using lease_created_events [OF after] warned quiet LeaseCreating by (auto simp: same_statics_def)
qed

lemma resumed_charged:
  assumes "resumes p acc f g" "events f0 k f n" "charged a n (fw_lease_at f) x"
  shows "\<exists>m. events f0 (if acc then Suc k else k) g m \<and> charged (Suc a) m (fw_lease_at g) y"
  using assms(1)
proof (cases rule: resumes_cases)
  case (accepted l)
  then show ?thesis
    using events_renewed [OF assms(2), of g] charged_event [OF assms(3), of y] by auto
next
  case (warned l)
  then have "events f0 k g (Suc n)" using events_warned [OF assms(2), of g] by simp
  moreover have "charged (Suc a) (Suc n) (fw_lease_at g) y"
    using warned(6,7) charged_event [OF assms(3), of y] charged_vanished [where y = y] assms(3) by auto
  ultimately show ?thesis using warned(1) by auto
next
  case quiet
  then have "events f0 k g n" using assms(2) by (simp add: events_def)
  moreover have "charged (Suc a) n (fw_lease_at g) y"
    using quiet(5) charged_start [where y = y] charged_created [where y = y] assms(3) by auto
  ultimately show ?thesis using quiet(1) by auto
qed

lemma lease_turn_resumes:
  assumes "asked p LeaseTask f = None"
  shows "resumes p False f (lease_turn p f)"
proof (cases "fw_lease_at f")
  case LeaseWaiting
  then show ?thesis
    by (auto simp: resumes_def lease_turn_def Let_def same_statics_def wait_secs_def
        split: prod.splits dest!: unix_now_frame)
next
  case (LeaseRenewing now)
  obtain r s where 1: "renew_lease p (KubeApi_new (fw_client f)) (fw_identity f) now (fw_sys f) = (r, s)"
    by fastforce
  obtain ph st s' where 2: "lease_renewed p r (fw_lease f) s = (ph, st, s')" by (metis prod.collapse)
  have g: "lease_turn p f = f\<lparr>fw_lease_at := ph, fw_lease := st, fw_sys := s'\<rparr>"
    by (simp add: lease_turn_def LeaseRenewing 1 2 del: lease_renewed_def)
  have "r \<noteq> Inr Renewed"
    using 1 assms by (auto simp: LeaseRenewing renewal_request_def renew_lease_def)
  with 2 api_same_statics(1) [OF 1] show ?thesis
    unfolding g by (auto simp: resumes_def LeaseRenewing simp del: lease_renewed_def)
next
  case (LeaseCreating now)
  obtain r s where 1: "create_lease p (KubeApi_new (fw_client f)) now (fw_sys f) = (r, s)" by fastforce
  obtain ph st s' where 2: "lease_created r (fw_lease f) s = (ph, st, s')" by (metis prod.collapse)
  have "lease_turn p f = f\<lparr>fw_lease_at := ph, fw_lease := st, fw_sys := s'\<rparr>"
    by (simp add: lease_turn_def LeaseCreating 1 2 del: lease_created_def)
  with 2 api_same_statics(2) [OF 1] show ?thesis
    by (auto simp: resumes_def LeaseCreating simp del: lease_created_def)
qed

lemma lease_answered_resumes:
  assumes "asked p LeaseTask f = Some l"
    "exchange_piece p (fw_client f) l ph (world (fw_sys f)) = (Inr r, w)"
  shows "resumes p (renewal_accepted p LeaseTask (f, Some (LeaseTask, ph))) f (answered p LeaseTask l r w f)"
proof -
  obtain ph' st s' where after: "lease_answer p (fw_lease_at f) r (fw_lease f) (exchanged l w (fw_sys f)) = (ph', st, s')"
    by (metis prod.collapse)
  then have g: "answered p LeaseTask l r w f = f\<lparr>fw_lease_at := ph', fw_lease := st, fw_sys := s'\<rparr>" by simp
  have s: "logged (exchanged l w (fw_sys f)) = logged (fw_sys f)"
    "same_statics (fw_sys f) (exchanged l w (fw_sys f))"
    by (simp_all add: exchanged_def same_statics_def)
  show ?thesis
    unfolding g renewal_accepted_answer [OF assms] using assms(1) after s
    by (cases "fw_lease_at f")
      (auto simp: resumes_def simp del: lease_renewed_def lease_created_def renewal_outcome_def)
qed

lemma status_answered_keeps:
  assumes "g = answered p StatusTask l r w f"
  shows "fw_lease g = fw_lease f \<and> fw_lease_at g = fw_lease_at f \<and> fw_client g = fw_client f \<and>
    RENEWAL_COUNT (fw_sys g) = RENEWAL_COUNT (fw_sys f) \<and>
    prefix (logged (fw_sys f)) (logged (fw_sys g))"
  using assms
  by (cases "fw_status_at f")
    (auto simp: exchanged_def info_def warn_def split: prod.splits sum.splits)

text \<open>Every step of the finer relation is a turn of the lease task, or leaves its state alone.\<close>

lemma asked_client [simp]: "fw_client (answered p t l r w f) = fw_client f"
  by (cases t) (simp_all split: prod.splits)

lemma held_simps [simp]:
  "held None = None" "held (Some (LeaseTask, x)) = Some x" "t \<noteq> LeaseTask \<Longrightarrow> held (Some (t, x)) = None"
  by (auto simp: held_def split: task.splits)

lemma other_turn_count:
  assumes "fw_step p t f g" "t \<noteq> LeaseTask"
  shows "RENEWAL_COUNT (fw_sys g) = RENEWAL_COUNT (fw_sys f)"
  using assms
proof cases
  case step_status
  obtain ph st s where piece: "status_resume p (fw_client f) (fw_identity f)
      (fw_status_at f, fw_status f, fw_sys f) = (ph, st, s)" by (metis prod.collapse)
  from status_resume_statics [OF piece] show ?thesis
    by (simp add: step_status status_turn_def piece same_statics_def)
qed (auto simp: wifi_turn_def led_listen_def led_frame_def led_receive_def world_turn_def frame_simps
    split: option.splits prod.splits)

lemma net_step_lease:
  assumes "net_step p t (f, h) (g, h')"
  obtains (resumes) "t = LeaseTask" "resumes p (renewal_accepted p t (f, h)) f g" "fw_client g = fw_client f"
  | (waits) l where "t = LeaseTask" "asked p t f = Some l" "\<not> renewal_accepted p t (f, h)"
      "h = None" "g = f" "h' = Some (LeaseTask, AtConnect)"
  | (piece) l ph ph' w where "t = LeaseTask" "asked p t f = Some l" "\<not> renewal_accepted p t (f, h)"
      "exchange_piece p (fw_client f) l ph (world (fw_sys f)) = (Inl ph', w)"
      "h = Some (LeaseTask, ph)" "g = world_turn w f" "h' = Some (LeaseTask, ph')"
  | (other) "t \<noteq> LeaseTask" "fw_lease g = fw_lease f" "fw_lease_at g = fw_lease_at f" "fw_client g = fw_client f"
      "RENEWAL_COUNT (fw_sys g) = RENEWAL_COUNT (fw_sys f)" "prefix (logged (fw_sys f)) (logged (fw_sys g))"
      "held h' = held h"
  using assms
proof cases
  case net_turn
  show thesis
  proof (cases "t = LeaseTask")
    case True
    then have "g = lease_turn p f" using net_turn(3) by (auto elim: fw_step.cases)
    moreover have idle: "asked p LeaseTask f = None" using net_turn(2) True by simp
    ultimately show thesis
      using resumes lease_turn_resumes [OF idle] renewal_accepted_idle [OF idle] True
        fw_step_parties [OF net_turn(3)] by simp
  next
    case False
    then show thesis
      using other net_turn(1) other_turn_lease [OF net_turn(3)] other_turn_count [OF net_turn(3)]
        fw_step_parties [OF net_turn(3)] fw_step_logs [OF net_turn(3)] by simp
  qed
next
  case (net_lock l)
  then show thesis using waits other by (cases "t = LeaseTask") simp_all
next
  case (net_piece l ph ph' w)
  show thesis
  proof (cases "t = LeaseTask")
    case True
    then show thesis
      using piece [OF True net_piece(4) _ net_piece(5)] net_piece renewal_accepted_piece [of p f l ph ph' w t] by simp
  next
    case False
    have "logged (fw_sys g) = logged (fw_sys f)" "RENEWAL_COUNT (fw_sys g) = RENEWAL_COUNT (fw_sys f)"
      using net_piece(2) by (simp_all add: world_turn_def)
    with False show thesis using other net_piece by simp
  qed
next
  case (net_answer l ph r w)
  show thesis
  proof (cases "t = LeaseTask")
    case True
    have "resumes p (renewal_accepted p t (f, h)) f g"
      using lease_answered_resumes [of p f l ph r w] net_answer True by simp
    moreover have "fw_client g = fw_client f" using net_answer(2) by (simp only: asked_client)
    ultimately show thesis by (rule resumes [OF True])
  next
    case False
    then have "t = StatusTask" using net_answer(4) by (cases t) auto
    with status_answered_keeps [OF refl, of p l r w f] False show thesis
      using other net_answer by simp
  qed
qed

section \<open>What is shown is what was accepted\<close>

definition counted :: "nat \<Rightarrow> 'w fw \<Rightarrow> bool" where
  "counted k f \<longleftrightarrow> lr_renewal_count (fw_lease f) = of_nat k \<and> RENEWAL_COUNT (fw_sys f) = of_nat k \<and>
     (lr_healthy (fw_lease f) \<longleftrightarrow> 0 < k)"

lemma counted_step:
  assumes "net_step p t n m" "counted k (fst n)"
  shows "counted (if renewal_accepted p t n then Suc k else k) (fst m)"
proof -
  obtain f h g h' where n: "n = (f, h)" "m = (g, h')" by (cases n; cases m) blast
  from assms(1) [unfolded n] show ?thesis
  proof (cases rule: net_step_lease)
    case resumes
    from resumes(2) assms(2) show ?thesis
      by (cases rule: resumes_cases) (auto simp: n counted_def ac_simps)
  next
    case (piece l ph ph' w)
    then show ?thesis using assms(2) by (simp add: n counted_def world_turn_def)
  qed (use assms(2) in \<open>auto simp: n counted_def\<close>)
qed

lemma history_counted:
  assumes "net_history p (f0, None) ts k n" "counted 0 f0"
  shows "counted k (fst n)"
  using assms by (induction rule: net_history.induct) (auto dest: counted_step split: if_splits)

section \<open>Every turn is charged\<close>

definition lively :: "'w fw \<Rightarrow> nat \<Rightarrow> nat \<Rightarrow> 'w node \<Rightarrow> bool" where
  "lively f0 a k n \<longleftrightarrow> resp_buf_len (fw_client (fst n)) = 8192 \<and>
     (\<exists>m. events f0 k (fst n) m \<and> charged a m (fw_lease_at (fst n)) (held (snd n)))"

lemma lively_step:
  assumes "net_step p t n m" "lively f0 a k n"
  shows "lively f0 (a + (if t = LeaseTask then 1 else 0)) (if renewal_accepted p t n then Suc k else k) m"
proof -
  obtain f h g h' where n: "n = (f, h)" "m = (g, h')" by (cases n; cases m) blast
  obtain e where e: "events f0 k f e" "charged a e (fw_lease_at f) (held h)"
    and cap: "resp_buf_len (fw_client f) = 8192"
    using assms(2) by (auto simp: lively_def n)
  from assms(1) [unfolded n] show ?thesis
  proof (cases rule: net_step_lease)
    case resumes
    from resumed_charged [OF resumes(2) e, of "held h'"] resumes(1,3) cap
    show ?thesis by (auto simp: lively_def n split: if_splits)
  next
    case (waits l)
    then have "fw_lease_at f \<noteq> LeaseWaiting" by (cases "fw_lease_at f") auto
    with waits e cap show ?thesis by (auto simp: lively_def n dest: charged_lock)
  next
    case (piece l ph ph' w)
    then have "fw_lease_at f \<noteq> LeaseWaiting" by (cases "fw_lease_at f") auto
    moreover have "awaits_left 8192 ph' < awaits_left 8192 ph"
      using exchange_piece_nearer [OF piece(4)] cap by simp
    ultimately have "charged (Suc a) e (fw_lease_at f) (Some ph')"
      using e(2) piece(5) charged_piece by simp
    moreover have "events f0 k (world_turn w f) e" using e(1) by (simp add: events_def world_turn_def)
    ultimately show ?thesis using piece cap by (auto simp: lively_def n)
  next
    case other
    from events_quiet [OF e(1) _ other(6)] other(2) obtain e' where "e \<le> e'" "events f0 k g e'" by auto
    with charged_more [OF e(2)] other cap show ?thesis by (auto simp: lively_def n)
  qed
qed

lemma history_lively:
  assumes "net_history p n0 us k n" "lively (fst n0) 0 0 n0"
  shows "lively (fst n0) (count_list us LeaseTask) k n"
  using assms
proof (induction rule: net_history.induct)
  case (history_more ts k n t m)
  from lively_step [OF history_more.hyps(2) history_more.IH [OF history_more.prems]] show ?case
    by (simp split: if_splits)
qed simp

lemma net_execution_client:
  assumes "net_execution p (f0, None) ts (f, h)"
  shows "fw_client f = fw_client f0"
proof -
  have "(some_fw_step p)\<^sup>*\<^sup>* f0 f" using net_execution_coarse [OF assms] by simp
  moreover have "fw_client f0 = fw_client f0" ..
  ultimately show ?thesis by (rule some_fw_steps_induct) (auto dest: fw_step_parties)
qed

section \<open>Properties\<close>

text \<open>C5. The node shows what happened: along every execution from the boot, \<open>k\<close> being the number of
  renewals that the server has answered by 200, both the counter of the lease reconciler and \<open>RENEWAL_COUNT\<close> are \<open>k\<close> (at their
  32 bits), the reconciler holds itself healthy exactly if \<open>k\<close> is not zero, and while \<open>k\<close> is zero neither
  \<open>Healthy\<close> nor \<open>Activity\<close> is signalled and the steady pattern of the LED is not \<open>Healthy\<close>, but \<open>Booting\<close>
  or \<open>Connecting\<close>. (The self-test in front of the loop, which shows green for 200 ms, is no pattern.)\<close>

theorem green_only_after_renewal:
  assumes "bounded_buffer (push p)" "boot p b link config w = Some f0" "net_history p (f0, None) ts k (f, h)"
  shows "lr_renewal_count (fw_lease f) = of_nat k \<and> RENEWAL_COUNT (fw_sys f) = of_nat k \<and>
    (lr_healthy (fw_lease f) \<longleftrightarrow> 0 < k) \<and>
    (LED_SIGNAL (fw_sys f) \<in> {Some Healthy, Some Activity} \<longrightarrow> 0 < k) \<and>
    (\<forall>l. fw_led f = Some l \<longrightarrow> steady l \<in> {Booting, Connecting} \<or> steady l = Healthy \<and> 0 < k)"
proof -
  note start = boot_facts(1) [OF assms(1,2)]
  obtain cfg where "config = Some cfg" by (rule boot_cases [OF assms(2)])
  with boot_parties [of p b link cfg w f0] assms(2) have "fw_lease f0 = LeaseReconciler_new" by auto
  with start have "counted 0 f0" by (simp add: counted_def fw_inv_def lease_inv_def LeaseReconciler_new_def)
  from history_counted [OF assms(3) this] have "counted k f" by simp
  moreover have "fw_inv f0 f" by (rule net_inv [OF net_history_execution [OF assms(3)] start])
  ultimately show ?thesis by (auto simp: counted_def fw_inv_def led_honest_def)
qed

lemma green_only_after_renewal_witness:
  "\<exists>f0 ts k h. boot sample_node sample_board sample_link sample_config (4200, []) = Some f0 \<and>
     net_history sample_node (f0, None) ts k (lease_turn sample_node (lease_turn sample_node f0), h) \<and>
     RENEWAL_COUNT (fw_sys (lease_turn sample_node (lease_turn sample_node f0))) = of_nat k"
proof -
  obtain f0 where boot: "boot sample_node sample_board sample_link sample_config (4200, []) = Some f0"
    by (rule sample_boots)
  obtain us where "net_execution sample_node (f0, None) us
      (lease_turn sample_node (lease_turn sample_node f0), None)"
    using execution_net [OF sample_lease_turns] by blast
  then obtain k where "net_history sample_node (f0, None) us k
      (lease_turn sample_node (lease_turn sample_node f0), None)"
    using net_execution_history by blast
  from green_only_after_renewal [OF sample_buffer boot this] this boot show ?thesis by blast
qed

text \<open>C6. The lease task never falls silent. In every stretch of every execution, wherever it begins and whatever
  the network delivers, the server answers and the other tasks do, at most 16401 of its turns
  pass for each renewal that is accepted and each warning about the lease that is logged, and 16400 more. So of any
  16401 turns in a row one brings a renewal or a warning; and while no round fails and no lease is
  missing, it is a renewal.\<close>

theorem lease_never_silent:
  assumes "boot p b link config w = Some f0" "net_execution p (f0, None) ts (f, h)"
    and "net_history p (f, h) us k (g, h')"
  shows "\<exists>new. logged (fw_sys g) = logged (fw_sys f) @ new \<and>
    lr_renewal_count (fw_lease g) = lr_renewal_count (fw_lease f) + of_nat k \<and>
    count_list us LeaseTask \<le> 16401 * (k + length (filter lease_warning new)) + 16400"
proof -
  obtain cfg where "config = Some cfg" by (rule boot_cases [OF assms(1)])
  then have "resp_buf_len (fw_client f) = 8192"
    using boot_parties [of p b link cfg w f0] assms(1) net_execution_client [OF assms(2)]
    by (auto simp: ApiClient_new_def)
  moreover have "charged 0 0 (fw_lease_at f) (held h)"
    using left_bound [of "fw_lease_at f" "held h"] by (simp add: charged_def)
  ultimately have "lively f 0 0 (f, h)" using events_start [of f] by (auto simp: lively_def)
  then obtain n where n: "events f k g n" "charged (count_list us LeaseTask) n (fw_lease_at g) (held h')"
    using history_lively [OF assms(3)] by (auto simp: lively_def)
  have "lent (fw_lease_at g) \<le> 8200 + left (fw_lease_at g) (held h')"
    using left_pos [of "fw_lease_at g" "held h'"] by (cases "fw_lease_at g") auto
  then have "count_list us LeaseTask \<le> 16401 * n + 16400" using n(2) by (simp add: charged_def)
  with n(1) show ?thesis by (auto simp: events_def warnings_def)
qed

lemma lease_never_silent_witness:
  "\<exists>f0 f us k g h new.
     boot sample_node sample_board sample_link sample_config (4200, []) = Some f0 \<and>
     net_history sample_node (f, Some (LeaseTask, AtConnect)) us k (g, h) \<and> length us = 16401 \<and>
     logged (fw_sys g) = logged (fw_sys f) @ new \<and>
     lr_renewal_count (fw_lease g) = lr_renewal_count (fw_lease f) + of_nat k \<and>
     0 < k + length (filter lease_warning new)"
proof -
  obtain f0 where boot: "boot sample_node sample_board sample_link sample_config (4200, []) = Some f0"
    by (rule sample_boots)
  obtain ts f l where f: "net_execution sample_node (f0, None) ts (f, None)" "asked sample_node LeaseTask f = Some l"
    using sample_asks [OF boot] by blast
  note locked = net_more [OF f(1) net_lock [OF f(2)]]
  have "net_ok sample_node (f, Some (LeaseTask, AtConnect))"
    using net_execution_coarse [OF locked] by simp
  from lease_turns_possible [OF this, of 16401] obtain g h where
    "net_execution sample_node (f, Some (LeaseTask, AtConnect)) (replicate 16401 LeaseTask) (g, h)" by auto
  then obtain k where run: "net_history sample_node (f, Some (LeaseTask, AtConnect))
      (replicate 16401 LeaseTask) k (g, h)" using net_execution_history by blast
  have count: "count_list (replicate j t) t = j" for j and t :: task by (induction j) simp_all
  from lease_never_silent [OF boot locked run] obtain new where new:
    "logged (fw_sys g) = logged (fw_sys f) @ new"
    "lr_renewal_count (fw_lease g) = lr_renewal_count (fw_lease f) + of_nat k"
    "count_list (replicate 16401 LeaseTask) LeaseTask \<le> 16401 * (k + length (filter lease_warning new)) + 16400"
    by blast
  from new(3) have "0 < k + length (filter lease_warning new)"
    unfolding count by (cases "k + length (filter lease_warning new)") simp_all
  moreover have "length (replicate 16401 LeaseTask) = 16401" by (rule length_replicate)
  ultimately show ?thesis using boot run new(1,2) by blast
qed

end
