(* ===== verification/Unit_Tests.thy ===== *)
theory Unit_Tests
  imports Models
begin

text \<open>
  The unit tests of the repository, stated of the model: one definition per \<open>#[test]\<close> function
  of \<open>wallclock.rs\<close>, \<open>k8s/path.rs\<close>, \<open>k8s/conditions.rs\<close> and \<open>k8s/models.rs\<close>, with the inputs
  and the assertions of that function. A failing \<open>expect\<close> or assertion is \<open>False\<close>. The two
  tests of bodies that contain the name of the node hold for every name that leaves room for it.
\<close>

section \<open>Searching in texts\<close>

text \<open>\<open>str::contains\<close>.\<close>

definition contains :: "string \<Rightarrow> string \<Rightarrow> bool" where
  "contains pat s \<longleftrightarrow> find_sub pat s \<noteq> None"

lemma contains_iff: "contains pat s \<longleftrightarrow> sublist pat s"
proof (induction s)
  case Nil
  then show ?case by (simp add: contains_def)
next
  case (Cons c cs)
  then show ?case by (simp add: contains_def sublist_Cons_right)
qed

lemma contains_mid: "contains p (a @ p @ b)"
  by (simp add: contains_iff)

lemma contains_append: "contains p s \<Longrightarrow> contains p (s @ t)" "contains p t \<Longrightarrow> contains p (s @ t)"
  by (simp_all add: contains_iff sublist_append)

section \<open>wallclock.rs\<close>

definition parses_http_date_from_kubernetes_version_response :: bool where
  "parses_http_date_from_kubernetes_version_response \<longleftrightarrow>
     parse_http_date ''Sat, 02 May 2026 15:47:17 GMT'' = Some 1777736837"

definition rejects_non_http_date_months :: bool where
  "rejects_non_http_date_months \<longleftrightarrow> parse_http_date ''Sat, 02 Wat 2026 15:47:17 GMT'' = None"

definition formats_kubernetes_timestamp_with_microseconds :: "push_str \<Rightarrow> bool" where
  "formats_kubernetes_timestamp_with_microseconds push \<longleftrightarrow>
     fmt_rfc3339 push 1777736837 [] = Some ''2026-05-02T15:47:17.000000Z''"

definition unix_conversion_handles_leap_day :: bool where
  "unix_conversion_handles_leap_day \<longleftrightarrow> unix_from_ymdhms 2024 2 29 0 0 0 = 1709164800"

lemma parses_http_date_ok: "parses_http_date_from_kubernetes_version_response"
  by code_simp

lemma rejects_months_ok: "rejects_non_http_date_months"
  by code_simp

lemma leap_day_ok: "unix_conversion_handles_leap_day"
  by code_simp

lemma timestamp_1777736837: "timestamp 1777736837 = ''2026-05-02T15:47:17.000000Z''"
proof -
  have "rfc3339_text (civil_of_days (epoch_shift + 20575)) 56837 = ''2026-05-02T15:47:17.000000Z''"
    by code_simp
  then show ?thesis by (simp add: timestamp_text)
qed

lemma formats_timestamp_ok: "bounded_buffer push \<Longrightarrow> formats_kubernetes_timestamp_with_microseconds push"
  using bounded_buffer.fmt_timestamp [of push 1777736837]
  by (simp add: formats_kubernetes_timestamp_with_microseconds_def timestamp_1777736837)

section \<open>k8s/path.rs\<close>

definition formats_path_without_allocating :: "push_str \<Rightarrow> bool" where
  "formats_path_without_allocating push \<longleftrightarrow>
     (case ApiPath_new push 64 [''/api/v1/nodes/'', ''heinrich'', ''/status''] of
        None \<Rightarrow> False | Some path \<Rightarrow> as_str path = ''/api/v1/nodes/heinrich/status'')"

definition rejects_paths_that_exceed_capacity :: "push_str \<Rightarrow> bool" where
  "rejects_paths_that_exceed_capacity push \<longleftrightarrow>
     ApiPath_new push 8 [''/api/v1/nodes/'', ''way-too-much-node''] = None"

definition clone_preserves_path_contents :: "push_str \<Rightarrow> bool" where
  "clone_preserves_path_contents push \<longleftrightarrow>
     (case ApiPath_new push 64 [''/api/v1/nodes/'', ''brigitte''] of None \<Rightarrow> False
      | Some path \<Rightarrow> (case ApiPath_clone push 64 path of None \<Rightarrow> False
          | Some copy \<Rightarrow> as_str copy = as_str path))"

lemma path_tests_ok:
  assumes "bounded_buffer push"
  shows "formats_path_without_allocating push" "rejects_paths_that_exceed_capacity push"
    "clone_preserves_path_contents push"
  using bounded_buffer.ApiPath_new_eq [OF assms] bounded_buffer.push_eq [OF assms]
  by (simp_all add: formats_path_without_allocating_def rejects_paths_that_exceed_capacity_def
      clone_preserves_path_contents_def ApiPath_clone_def as_str_def)

section \<open>k8s/conditions.rs\<close>

definition test_inputs :: CustomCondInputs where
  "test_inputs = \<lparr>heap_free_bytes = HEAP_TOTAL_BYTES, uptime_secs = 1, wifi_reconnects_5min = 0,
     renewal_count = 0, bssid_changed = False, time_slipped = False\<rparr>"

definition cond_state_tracks_transition_time_only_on_flips :: bool where
  "cond_state_tracks_transition_time_only_on_flips \<longleftrightarrow>
     (let state = CondState_new False 10;
          (f1, state1) = CondState_observe False 20 state;
          (f2, state2) = CondState_observe True 30 state1
      in \<not> f1 \<and> cs_transitioned_at state1 = 10 \<and>
         f2 \<and> cs_value state2 \<and> cs_transitioned_at state2 = 30)"

definition custom_conditions_start_unknown_so_first_real_value_forces_patch :: bool where
  "custom_conditions_start_unknown_so_first_real_value_forces_patch \<longleftrightarrow>
     (let state = CustomCondState_new 10;
          (f1, state1) = CustomCondState_observe CondTrue 11 state;
          (f2, state2) = CustomCondState_observe CondTrue 12 state1
      in f1 \<and> ccs_transitioned_at state1 = 11 \<and> \<not> f2 \<and> ccs_transitioned_at state2 = 11)"

definition heap_percent_is_capped_at_total_heap :: bool where
  "heap_percent_is_capped_at_total_heap \<longleftrightarrow>
     heap_pct_free (test_inputs\<lparr>heap_free_bytes := HEAP_TOTAL_BYTES * 3\<rparr>) = 100"

definition vibes_prefers_cursed_reconnects_over_good_heap :: bool where
  "vibes_prefers_cursed_reconnects_over_good_heap \<longleftrightarrow>
     (let cond = eval_vibes (test_inputs\<lparr>wifi_reconnects_5min := VIBES_CURSED_RECONNECTS\<rparr>)
      in cc_status cond = CondFalse \<and> cc_reason cond = ''Cursed'')"

definition vibes_reports_immaculate_on_fresh_stable_boot :: bool where
  "vibes_reports_immaculate_on_fresh_stable_boot \<longleftrightarrow>
     (let cond = eval_vibes test_inputs in cc_status cond = CondTrue \<and> cc_reason cond = ''Immaculate'')"

definition caffeinated_turns_decaf_after_fresh_window :: bool where
  "caffeinated_turns_decaf_after_fresh_window \<longleftrightarrow>
     (let cond = eval_caffeinated (test_inputs\<lparr>uptime_secs := CAFFEINATED_FRESH_SECS\<rparr>)
      in cc_status cond = CondFalse \<and> cc_reason cond = ''Decaf'')"

definition existential_thresholds_are_monotonic :: bool where
  "existential_thresholds_are_monotonic \<longleftrightarrow>
     (let innocent = eval_existential (test_inputs\<lparr>renewal_count := 99\<rparr>);
          questioning = eval_existential (test_inputs\<lparr>renewal_count := 100\<rparr>);
          accepting = eval_existential (test_inputs\<lparr>renewal_count := 1000\<rparr>);
          transcendent = eval_existential (test_inputs\<lparr>renewal_count := 10000\<rparr>)
      in cc_reason innocent = ''Innocent'' \<and> cc_reason questioning = ''Questioning'' \<and>
         cc_reason accepting = ''Accepting'' \<and> cc_reason transcendent = ''Transcendent'')"

definition peckish_defers_to_memory_pressure_threshold :: bool where
  "peckish_defers_to_memory_pressure_threshold \<longleftrightarrow>
     (let cond = eval_peckish (test_inputs\<lparr>heap_free_bytes := MEMORY_PRESSURE_FREE_BYTES - 1\<rparr>)
      in cc_status cond = CondTrue \<and> cc_reason cond = ''Hungry'')"

definition haunted_prefers_new_bssid_over_time_slip :: bool where
  "haunted_prefers_new_bssid_over_time_slip \<longleftrightarrow>
     (let cond = eval_haunted (test_inputs\<lparr>bssid_changed := True, time_slipped := True\<rparr>)
      in cc_status cond = CondTrue \<and> cc_reason cond = ''NewGhost'')"

lemma condition_tests_ok:
  "cond_state_tracks_transition_time_only_on_flips"
  "custom_conditions_start_unknown_so_first_real_value_forces_patch"
  "heap_percent_is_capped_at_total_heap" "vibes_prefers_cursed_reconnects_over_good_heap"
  "vibes_reports_immaculate_on_fresh_stable_boot" "caffeinated_turns_decaf_after_fresh_window"
  "existential_thresholds_are_monotonic" "peckish_defers_to_memory_pressure_threshold"
  "haunted_prefers_new_bssid_over_time_slip"
  by code_simp+

section \<open>k8s/models.rs\<close>

definition lease_body_contains_name_namespace_duration_and_renew_time :: "push_str \<Rightarrow> build_env \<Rightarrow> bool" where
  \<open>lease_body_contains_name_namespace_duration_and_renew_time push e \<longleftrightarrow>
     (case LeaseBody_write_json push e 1777736837 [] of None \<Rightarrow> False
      | Some out \<Rightarrow> contains ''"kind":"Lease"'' out \<and> contains ''"namespace":"kube-node-lease"'' out \<and>
          contains (NODE_NAME e) out \<and> contains ''"leaseDurationSeconds":40'' out \<and>
          contains ''"renewTime":"2026-05-02T15:47:17.000000Z"'' out \<and> LEASE_DURATION_SECS = 40)\<close>

definition test_status :: NodeStatusPatch where
  "test_status = \<lparr>nsp_tracker = NodeCondTracker_new 1777736800,
     nsp_custom = [\<lparr>ce_name = ''Vibes'',
       ce_current = \<lparr>cc_status = CondTrue, cc_reason = ''Immaculate'',
                     cc_message = ''freshly booted, heap abundant''\<rparr>,
       ce_transitioned_at = 1777736837\<rparr>],
     nsp_heartbeat_unix = 1777736837\<rparr>"

definition status_patch_writes_custom_conditions_after_builtin_conditions :: "push_str \<Rightarrow> bool" where
  \<open>status_patch_writes_custom_conditions_after_builtin_conditions push \<longleftrightarrow>
     (case NodeStatusPatch_write_json push test_status [] of None \<Rightarrow> False
      | Some out \<Rightarrow>
        (case find_sub ''"type":"Ready"'' out of None \<Rightarrow> False
         | Some at_ready \<Rightarrow>
           (case find_sub ''"type":"Vibes"'' out of None \<Rightarrow> False
            | Some at_vibes \<Rightarrow> at_ready < at_vibes \<and>
                contains ''"lastHeartbeatTime":"2026-05-02T15:47:17.000000Z"'' out \<and>
                contains ''"reason":"Immaculate"'' out)))\<close>

definition heap_annotation_serializes_free_bytes_as_string_annotation :: "push_str \<Rightarrow> bool" where
  \<open>heap_annotation_serializes_free_bytes_as_string_annotation push \<longleftrightarrow>
     HeapAnnotationPatch_write_json push 12345 []
       = Some ''{"metadata":{"annotations":{"node.specht.dev/heap-bytes-free":"12345"}}}''\<close>

definition node_registration_uses_supplied_ip_as_internal_address :: "push_str \<Rightarrow> build_env \<Rightarrow> bool" where
  \<open>node_registration_uses_supplied_ip_as_internal_address push e \<longleftrightarrow>
     (case NodeRegistration_write_json push e \<lparr>nr_ip = (10, 42, 0, 7), nr_now_unix = 1777736837\<rparr> [] of
        None \<Rightarrow> False
      | Some out \<Rightarrow> contains ''"type":"InternalIP","address":"10.42.0.7"'' out \<and>
          contains ''"kubernetes.io/hostname"'' out)\<close>

lemma heap_annotation_ok:
  assumes "bounded_buffer push"
  shows "heap_annotation_serializes_free_bytes_as_string_annotation push"
proof -
  have "fmt_display (12345 :: usize) = ''12345''" by code_simp
  then show ?thesis
    using bounded_buffer.HeapAnnotationPatch_write [OF assms, of 12345]
    by (simp add: heap_annotation_serializes_free_bytes_as_string_annotation_def HeapAnnotation_pieces_def)
qed

text \<open>A text occurs in a list of pieces if it occurs in a part of them.\<close>

lemma contains_part: "contains p (concat ys) \<Longrightarrow> contains p (concat (xs @ ys @ zs))"
  by (simp add: contains_append)

lemma lease_body_ok:
  assumes "bounded_buffer push" "length (NODE_NAME e) \<le> 65"
  shows "lease_body_contains_name_namespace_duration_and_renew_time push e"
proof -
  let ?name = "NODE_NAME e"
  let ?a = \<open>''{"apiVersion":"coordination.k8s.io/v1","kind":"Lease","metadata":{"name":"''\<close>
  let ?b = \<open>''","namespace":"kube-node-lease"},"spec":{"holderIdentity":"''\<close>
  let ?c = \<open>[''","leaseDurationSeconds":'', ''40'', '',"renewTime":"'', ''2026-05-02T15:47:17.000000Z'', ''"}}'']\<close>
  define ps where "ps = LeaseBody_pieces e ''2026-05-02T15:47:17.000000Z''"
  have "fmt_display LEASE_DURATION_SECS = ''40''" by code_simp
  then have ps: "ps = [] @ [?a] @ [?name, ?b, ?name] @ ?c" "ps = [?a] @ [?name] @ [?b, ?name] @ ?c"
    "ps = [?a, ?name] @ [?b] @ [?name] @ ?c" "ps = [?a, ?name, ?b, ?name] @ ?c @ []"
    by (simp_all only: ps_def LeaseBody_pieces_def Let_def append.simps)
  have \<open>contains ''"kind":"Lease"'' (concat [?a])\<close> \<open>contains ''"namespace":"kube-node-lease"'' (concat [?b])\<close>
    \<open>contains ''"leaseDurationSeconds":40'' (concat ?c)\<close>
    \<open>contains ''"renewTime":"2026-05-02T15:47:17.000000Z"'' (concat ?c)\<close>
    by code_simp+
  moreover have "contains ?name (concat [?name])"
    by (simp add: contains_iff)
  ultimately have \<open>contains ''"kind":"Lease"'' (concat ps)\<close>
    \<open>contains ''"namespace":"kube-node-lease"'' (concat ps)\<close> "contains ?name (concat ps)"
    \<open>contains ''"leaseDurationSeconds":40'' (concat ps)\<close>
    \<open>contains ''"renewTime":"2026-05-02T15:47:17.000000Z"'' (concat ps)\<close>
    using contains_part ps by metis+
  moreover have "LeaseBody_write_json push e 1777736837 [] = Some (concat ps)"
    using bounded_buffer.LeaseBody_write [OF assms(1), of e 1777736837] assms(2)
    by (simp add: timestamp_1777736837 length_LeaseBody ps_def)
  ultimately show ?thesis
    by (simp add: lease_body_contains_name_namespace_duration_and_renew_time_def LEASE_DURATION_SECS_def)
qed

lemma contains_slice: "contains p (concat (take n (drop k ps))) \<Longrightarrow> contains p (concat ps)"
  by (metis append_take_drop_id contains_part)

lemma node_registration_ok:
  assumes "bounded_buffer push" "length (NODE_NAME e) \<le> 61"
  shows "node_registration_uses_supplied_ip_as_internal_address push e"
proof -
  define ps where "ps = NodeRegistration_pieces e (10, 42, 0, 7) ''2026-05-02T15:47:17.000000Z''"
  have ip: "fmt_display (10 :: u8) = ''10''" "fmt_display (42 :: u8) = ''42''"
    "fmt_display (0 :: u8) = ''0''" "fmt_display (7 :: u8) = ''7''"
    by code_simp+
  have host: \<open>take 1 (drop 2 ps) = [''","labels":{"kubernetes.io/hostname":"'']\<close>
    by (simp add: ps_def NodeRegistration_pieces_def Let_def)
  have address: \<open>take 9 (drop 8 ps) = [''","bootID":"00000000-0000-0000-0000-000000000001",'' @
       ''"kernelVersion":"esp-rs-no_std","osImage":"picokubelet on bare metal",'' @
       ''"containerRuntimeVersion":"lies://0.1.0","kubeletVersion":"v1.31.1-picokubelet",'' @
       ''"kubeProxyVersion":"v1.31.1-picokubelet","operatingSystem":"no_std",'' @
       ''"architecture":"xtensa-lx7"},"addresses":[{"type":"InternalIP","address":"'',
       ''10'', ''.'', ''42'', ''.'', ''0'', ''.'', ''7'', ''"},{"type":"Hostname","address":"'']\<close>
    by (simp add: ps_def NodeRegistration_pieces_def Let_def ip)
  have \<open>contains ''"type":"InternalIP","address":"10.42.0.7"'' (concat (take 9 (drop 8 ps)))\<close>
    \<open>contains ''"kubernetes.io/hostname"'' (concat (take 1 (drop 2 ps)))\<close>
    unfolding host address by code_simp+
  note found = this [THEN contains_slice]
  have "dotted_quad (10, 42, 0, 7) = ''10.42.0.7''" by code_simp
  then have "NodeRegistration_write_json push e \<lparr>nr_ip = (10, 42, 0, 7), nr_now_unix = 1777736837\<rparr> []
      = Some (concat ps)"
    using bounded_buffer.NodeRegistration_write [OF assms(1), of e
        "\<lparr>nr_ip = (10, 42, 0, 7), nr_now_unix = 1777736837\<rparr>"] assms(2)
    by (simp add: timestamp_1777736837 length_NodeRegistration ps_def)
  then show ?thesis
    using found by (simp only: node_registration_uses_supplied_ip_as_internal_address_def option.case simp_thms)
qed

lemma find_sub_occurs: "find_sub p s = Some i \<Longrightarrow> prefix p (drop i s)"
  by (induction s arbitrary: i) (auto split: if_splits)

lemma find_sub_append:
  assumes "find_sub p s = Some i"
  shows "find_sub p (s @ t) = Some i"
  using assms
proof (induction s arbitrary: i)
  case (Cons c cs)
  show ?case
  proof (cases "prefix p (c # cs)")
    case True
    then have "prefix p ((c # cs) @ t)" by (rule prefix_prefix)
    then show ?thesis using Cons.prems True by simp
  next
    case False
    then obtain j where j: "find_sub p cs = Some j" "i = Suc j" using Cons.prems by auto
    have "\<not> prefix p ((c # cs) @ t)"
    proof
      assume "prefix p ((c # cs) @ t)"
      moreover have "length p \<le> length (c # cs)" using find_sub_bound [OF j(1)] by simp
      ultimately have "prefix p (c # cs)" by (metis prefixI prefix_length_prefix)
      with False show False ..
    qed
    then show ?thesis using Cons.IH [OF j(1)] j(2) by simp
  qed
qed (cases t, auto split: if_splits)

text \<open>A text that is not in the beginning of another is found behind it.\<close>

lemma find_sub_behind:
  assumes "find_sub p s = Some i" "\<not> contains p (take (k + length p) s)"
  shows "k < i"
proof (rule ccontr)
  assume "\<not> k < i"
  obtain z where z: "drop i s = p @ z" using find_sub_occurs [OF assms(1)] by (auto elim: prefixE)
  have "take (k + length p) s = take i s @ take (k + length p - i) (drop i s)"
    using \<open>\<not> k < i\<close> by (metis le_add_diff_inverse2 take_add add.commute trans_le_add1 not_less)
  also have "\<dots> = take i s @ p @ take (k - i) z"
    using \<open>\<not> k < i\<close> by (simp add: z)
  finally show False using assms(2) by (simp add: contains_mid)
qed

lemma status_patch_ok:
  assumes "bounded_buffer push"
  shows "status_patch_writes_custom_conditions_after_builtin_conditions push"
proof -
  have "rfc3339_text (civil_of_days (epoch_shift + 20575)) 56800 = ''2026-05-02T15:46:40.000000Z''"
    by code_simp
  then have ts: "timestamp 1777736800 = ''2026-05-02T15:46:40.000000Z''" by (simp add: timestamp_text)
  define custom where "custom = concat (concat (map (\<lambda>e. NodeStatus_custom_pieces e
      ''2026-05-02T15:47:17.000000Z'' ''2026-05-02T15:47:17.000000Z'') (nsp_custom test_status)))"
  define builtin where "builtin = concat (NodeStatus_builtin_pieces (NodeCondTracker_new 1777736800)
      ''2026-05-02T15:47:17.000000Z'' ''2026-05-02T15:46:40.000000Z'' ''2026-05-02T15:46:40.000000Z''
      ''2026-05-02T15:46:40.000000Z'' ''2026-05-02T15:46:40.000000Z'')"
  let ?body = "builtin @ custom @ '']}}''"
  have body: "status_text test_status = ?body"
    by (simp add: status_text_def custom_text_def test_status_def custom_def builtin_def
        timestamp_1777736837 ts Let_def NodeCondTracker_new_def CondState_new_def)
  have length: "length builtin \<le> 2000" unfolding builtin_def by code_simp
  have start: \<open>contains ''"lastHeartbeatTime":"2026-05-02T15:47:17.000000Z"'' builtin\<close>
    \<open>find_sub ''"type":"Ready"'' builtin = Some 26\<close>
    \<open>\<not> contains ''"type":"Vibes"'' (take 40 builtin)\<close>
    unfolding builtin_def by code_simp+
  have tail: \<open>contains ''"type":"Vibes"'' custom\<close> \<open>contains ''"reason":"Immaculate"'' custom\<close>
    "length custom \<le> 1000"
    unfolding custom_def by code_simp+
  note ready = find_sub_append [OF start(2), of "custom @ '']}}''"]
  have \<open>contains ''"type":"Vibes"'' ?body\<close>
    by (rule contains_append(2) [OF contains_append(1) [OF tail(1)]])
  then obtain i where vibes: \<open>find_sub ''"type":"Vibes"'' ?body = Some i\<close>
    unfolding contains_def by blast
  have "40 \<le> length builtin" using find_sub_bound [OF start(2)] by simp
  then have "26 < i"
    using find_sub_behind [OF vibes, of 26] start(3) by simp
  moreover have \<open>contains ''"lastHeartbeatTime":"2026-05-02T15:47:17.000000Z"'' ?body\<close>
    \<open>contains ''"reason":"Immaculate"'' ?body\<close>
    using contains_append(1) [OF start(1)] contains_append(2) [OF contains_append(1) [OF tail(2)]] by blast+
  moreover have "NodeStatusPatch_write_json push test_status [] = Some ?body"
    using bounded_buffer.NodeStatusPatch_write [OF assms, of test_status] length tail(3)
    by (simp add: body)
  ultimately show ?thesis
    by (simp only: status_patch_writes_custom_conditions_after_builtin_conditions_def option.case ready vibes
        simp_thms)
qed

section \<open>All of them\<close>

text \<open>
  All twenty unit tests of the repository hold of the model, with every bounded buffer and every
  node name that leaves the Node object room. They say that the definitions agree with the code on
  the inputs its authors chose; what the code does beyond them is the matter of the other theories.
\<close>

lemma unit_tests_hold:
  assumes "bounded_buffer push" "length (NODE_NAME e) \<le> 61"
  shows "parses_http_date_from_kubernetes_version_response \<and> rejects_non_http_date_months \<and>
    formats_kubernetes_timestamp_with_microseconds push \<and> unix_conversion_handles_leap_day \<and>
    formats_path_without_allocating push \<and> rejects_paths_that_exceed_capacity push \<and>
    clone_preserves_path_contents push \<and>
    cond_state_tracks_transition_time_only_on_flips \<and>
    custom_conditions_start_unknown_so_first_real_value_forces_patch \<and>
    heap_percent_is_capped_at_total_heap \<and> vibes_prefers_cursed_reconnects_over_good_heap \<and>
    vibes_reports_immaculate_on_fresh_stable_boot \<and> caffeinated_turns_decaf_after_fresh_window \<and>
    existential_thresholds_are_monotonic \<and> peckish_defers_to_memory_pressure_threshold \<and>
    haunted_prefers_new_bssid_over_time_slip \<and>
    lease_body_contains_name_namespace_duration_and_renew_time push e \<and>
    status_patch_writes_custom_conditions_after_builtin_conditions push \<and>
    heap_annotation_serializes_free_bytes_as_string_annotation push \<and>
    node_registration_uses_supplied_ip_as_internal_address push e"
  using parses_http_date_ok rejects_months_ok formats_timestamp_ok [OF assms(1)] leap_day_ok
    path_tests_ok [OF assms(1)] condition_tests_ok lease_body_ok [OF assms(1), of e]
    status_patch_ok [OF assms(1)] heap_annotation_ok [OF assms(1)] node_registration_ok [OF assms] assms(2)
  by simp

end
