(* ===== verification/Spec2Isabelle.thy ===== *)
theory Spec2Isabelle
  imports Progress Unit_Tests
begin

text \<open>
  A verification library for picokubelet, the firmware that makes an ESP32-S3 a node of a
  Kubernetes cluster (\<open>src/\<close>, Rust).

  \<^bold>\<open>The program.\<close> After the start, \<open>main\<close> (\<open>src/main.rs\<close>) probes the wired interface, waits for
  DHCP and hands over to \<open>kubelet::bootstrap\<close> (\<open>src/kubelet.rs\<close>): it anchors the wall clock from
  the \<open>Date\<close> header of the API server, registers the node, creates its lease and pushes a first
  status. Then two tasks run for ever: \<open>reconcilers::lease\<close> renews the lease every 10 s and
  \<open>reconcilers::status\<close> pushes the conditions of the node when one of them flips, and every 300 s.
  They share one HTTPS client behind a mutex, a renewal counter, the statics of the Wi-Fi link and
  the signal of the status LED, which has a task of its own.

  \<^bold>\<open>The theories\<close>, in the order they build on each other, with the code they model:

  \<^item> \<open>Prelude\<close>: machine integers and the integer operations of the Rust core library; the
    collections of facts. \<open>Rust_Text\<close>: formatting, parsing, searching and UTF-8 of the Rust
    standard library. \<open>Heapless\<close>: the bounded strings of \<open>heapless\<close>, as a parameter \<open>push\<close> with
    the contract \<open>bounded_buffer\<close>, interpreted by \<open>bounded_push\<close>.
  \<^item> \<open>Config\<close>: \<open>config.rs\<close>. \<open>ApiPath\<close>: \<open>k8s/path.rs\<close> and the identity of \<open>kubelet.rs\<close>.
  \<^item> \<open>Civil\<close>: the Gregorian calendar counted day by day, the specification of the dates, and the
    closed forms that compute it. \<open>Wallclock\<close>: \<open>wallclock.rs\<close>, proved equal to that calendar at
    the widths of the code.
  \<^item> \<open>Json\<close>: JSON documents and their compact text, the specification of the bodies. \<open>Conditions\<close>:
    \<open>k8s/conditions.rs\<close>; the trackers are instances of the locale \<open>flip_slot\<close>. \<open>Models\<close>:
    \<open>k8s/models.rs\<close>, each body proved to be the text of a JSON document, with its exact bound.
  \<^item> \<open>Http\<close>: \<open>net/http.rs\<close>. \<open>Led\<close>: \<open>led.rs\<close>. \<open>Wifi\<close>: \<open>net/wifi.rs\<close>. \<open>Ethernet\<close>: \<open>net/ethernet.rs\<close>.
  \<^item> \<open>Platform\<close>: the record \<open>platform\<close> of everything that is not part of the repository, and the
    record \<open>sys\<close> of the statics, the log and the requests made. \<open>Client\<close>: \<open>net/client.rs\<close>, a request
    as a whole; \<open>Exchange\<close>: the same request from await to await, and that it ends. \<open>Api\<close>:
    \<open>k8s/api.rs\<close>.
  \<^item> \<open>Reconcilers\<close>: \<open>reconcilers/mod.rs\<close>; the trait is the locale \<open>reconciler\<close>. \<open>Lease\<close> and \<open>Status\<close>:
    \<open>reconcilers/lease.rs\<close> and \<open>reconcilers/status.rs\<close>, a round each, with an interpretation of
    the locale. \<open>Deadline\<close>: the rounds of the lease on the clock of the platform. \<open>Kubelet\<close>: the
    bootstrap of \<open>kubelet.rs\<close>.
  \<^item> \<open>Board\<close>: \<open>main.rs\<close> until the network stack runs, with the locale \<open>executor\<close> for the spawning of
    tasks. \<open>Tasks\<close>: the two reconcilers from await to await. \<open>Firmware\<close>: \<open>main\<close> as a whole, and the step
    relation \<open>fw_step\<close> in which all tasks take turns. \<open>Protocol\<close>: the abstract machine
    \<open>spec_step\<close> of what the node promises, the simulation of a turn by its steps, and progress.
    \<open>Awaits\<close>: the step relation \<open>net_step\<close>, in which requests are cut at their awaits and the mutex is
    explicit, its equivalence with \<open>fw_step\<close>, and the properties of the whole firmware. \<open>Progress\<close>:
    executions with the number of renewals that the server has answered by 200 (\<open>net_history\<close>), that
    counter, health and LED show exactly these, and that the lease task gets on, by an account of its turns.
  \<^item> \<open>Unit_Tests\<close>: the unit tests of the repository, stated of the model and proved; they check the model
    on the inputs of its authors.

  \<^bold>\<open>How state and effects are modelled.\<close> A struct is a record with the fields of the code, an enum a
  datatype, an integer a word of its width; \<open>usize\<close> has the 32 bits of the target. Arithmetic wraps
  as in the release profile of \<open>Cargo.toml\<close>, which sets \<open>overflow-checks = false\<close>. A function that
  can fail returns a sum or an option; \<open>unwrap\<close> and \<open>expect\<close> of \<open>main\<close> are \<open>None\<close>. Every operation
  with an effect takes and returns \<open>sys\<close>; log lines are kept in full, the list of requests is a
  history variable. Format strings are lists of pieces that are written one after the other, so
  that a buffer may run full between them. A string is the list of its bytes.

  \<^bold>\<open>What is a parameter.\<close> The clock of \<open>embassy-time\<close>, the allocator, the random numbers, TCP and TLS
  are fields of \<open>platform\<close>, functions on an arbitrary state of the world; nothing is assumed of
  them unless a theorem says so. \<open>delivers\<close> says of the TLS stream that it hands out the bytes of
  a response in any portions, \<open>transmitted\<close> that connecting and writing succeeded. \<open>bounded_buffer\<close>
  is the documented behaviour of \<open>heapless::String::push_str\<close>. \<open>board\<close> collects what the drivers and
  the executor answer to \<open>main\<close>; \<open>executor\<close> says that a task that does not run can be spawned. The
  SPI bus of the probe and the events of the Wi-Fi driver are arguments. \<open>on_time\<close> and \<open>polite\<close> bound
  the durations that the age of the lease depends on. \<open>replay\<close>, \<open>offline\<close> and \<open>outage\<close> are platforms to run the
  definitions on.

  \<^bold>\<open>What the lemmas show.\<close> Time: the timestamps are those of the calendar for every 64-bit number of
  seconds, headers and timestamps round-trip, the anchored clock is exact and monotonic. Bodies:
  every body is the JSON document it should be, or the buffer is too small, with the exact bound.
  Client: the read loop ends, by a measure on the room left in the buffer, for every way to portion
  the response, and the parser inverts the format of HTTP. Conditions: transition times are those of the
  last flip. Reconcilers: when a round pushes, what it sends, what it keeps after each kind of
  failure, and that the lease outlives as many failed renewals as its budget of time has room for. Whole
  firmware: what holds in every state that the tasks can reach together, that it refines the abstract
  node, that requests are as good as atomic and give the client back, and that any 16401 turns of the lease
  task in a row bring an accepted renewal or a warning, whatever the server answers. \<open>main\<close>: where it panics, and what it spawns. LED: the
  brightness cap, the frame on the wire, and that green is shown only behind a renewal.

  \<^bold>\<open>Interleaving.\<close> A step of \<open>fw_step\<close> runs a task from one await to the next, and takes a request as one
  await. A step of \<open>net_step\<close> is finer: it locks the client, runs one piece of a request between two
  of its awaits, or gives the client back and goes on with the answer, and every other task may take
  its turns in between. \<open>requests_are_atomic\<close> connects the two; the lemma \<open>rounds_are_pieces\<close> of \<open>Tasks\<close> connects the turns
  of a reconciler to its rounds. The status task makes its reconciler with its first turn
  (\<open>StatusStarting\<close>), as the executor polls it. The \<open>select\<close> of the LED task is two rules: \<open>led_frame\<close> when the timer of the frame
  has fired, which leaves a pattern that is signalled for later, and \<open>led_receive\<close> when a pattern comes first. Loops that never end are steps or runs over a list of rounds, and
  need no fuel; the loop of a request ends by the measure \<open>awaits_left\<close>, at most 8199 for the 8192 bytes
  of the response buffer and seven awaits around it.

  \<^bold>\<open>Not modelled.\<close> The initialisation of the chip, the logger and the scheduler in \<open>main.rs\<close>, which
  returns nothing the rest uses, and what the tasks do that only call the runners of their drivers
  (\<open>net_task\<close>, \<open>ethernet_task\<close>). The steps of the bootstrap lock the client one after the other while no
  other task exists that wants it, so there the lock is left out. The cryptography and the time-outs inside the TLS
  and TCP libraries. The RMT peripheral, whose errors the code ignores.
  The module lists \<open>lib.rs\<close>, \<open>net/mod.rs\<close> and \<open>k8s/mod.rs\<close> have no code.
\<close>

end
